theory Spec2Isabelle
  imports Complex_Main "HOL-Library.Word" "HOL-Library.Extended_Nat"
begin

section \<open>JavaScript strings and the regular expressions of the source\<close>

text \<open>
  A JavaScript string is a sequence of UTF-16 code units; \<^verbatim>\<open>length\<close> counts code units and a
  regular expression without the \<^verbatim>\<open>u\<close> flag works on code units.
\<close>

type_synonym js_char = "16 word"
type_synonym js_string = "js_char list"

definition js :: "string \<Rightarrow> js_string" where
  \<comment> \<open>an ASCII literal of the source as code units\<close>
  "js s = map (\<lambda>c. of_nat (of_char c)) s"

definition is_space :: "js_char \<Rightarrow> bool" where
  \<comment> \<open>the class \<^verbatim>\<open>\s\<close>, which is also what \<^verbatim>\<open>trim()\<close> strips: WhiteSpace and LineTerminator\<close>
  "is_space c \<longleftrightarrow>
     c \<in> {0x09, 0x0A, 0x0B, 0x0C, 0x0D, 0x20, 0xA0, 0x1680, 0x2028, 0x2029,
          0x202F, 0x205F, 0x3000, 0xFEFF} \<or> (0x2000 \<le> c \<and> c \<le> 0x200A)"

definition is_digit :: "js_char \<Rightarrow> bool" where
  \<comment> \<open>the class \<^verbatim>\<open>\d\<close>\<close>
  "is_digit c \<longleftrightarrow> 0x30 \<le> c \<and> c \<le> 0x39"

definition is_word :: "js_char \<Rightarrow> bool" where
  \<comment> \<open>the class \<^verbatim>\<open>\w\<close> (the \<^verbatim>\<open>i\<close> flag adds nothing to it without the \<^verbatim>\<open>u\<close> flag)\<close>
  "is_word c \<longleftrightarrow>
     is_digit c \<or> (0x41 \<le> c \<and> c \<le> 0x5A) \<or> c = 0x5F \<or> (0x61 \<le> c \<and> c \<le> 0x7A)"

definition ascii_upper :: "js_char \<Rightarrow> js_char" where
  "ascii_upper c = (if 0x61 \<le> c \<and> c \<le> 0x7A then c - 0x20 else c)"

definition trim :: "js_string \<Rightarrow> js_string" where
  \<comment> \<open>\<^verbatim>\<open>String.prototype.trim\<close>\<close>
  "trim s = rev (dropWhile is_space (rev (dropWhile is_space s)))"

definition startsWith :: "js_string \<Rightarrow> js_string \<Rightarrow> bool" where
  \<comment> \<open>\<^verbatim>\<open>s.startsWith(p)\<close>\<close>
  "startsWith s p \<longleftrightarrow> take (length p) s = p"

fun str_includes :: "js_string \<Rightarrow> js_string \<Rightarrow> bool" where
  \<comment> \<open>\<^verbatim>\<open>s.includes(p)\<close>\<close>
  "str_includes [] p = (p = [])"
| "str_includes (c # cs) p = (startsWith (c # cs) p \<or> str_includes cs p)"

definition ci_prefix :: "js_string \<Rightarrow> js_string \<Rightarrow> bool" where
  \<comment> \<open>an ASCII pattern under the \<^verbatim>\<open>i\<close> flag matches at the head of \<open>s\<close>: a code unit outside
      ASCII never canonicalises to an ASCII one\<close>
  "ci_prefix p s \<longleftrightarrow>
     length p \<le> length s \<and> map ascii_upper (take (length p) s) = map ascii_upper p"

fun find_ci :: "js_string \<Rightarrow> js_string \<Rightarrow> nat option" where
  \<comment> \<open>the offset just behind the first case-insensitive occurrence of \<open>p\<close> in the text\<close>
  "find_ci p [] = (if p = [] then Some 0 else None)"
| "find_ci p (c # cs) =
     (if ci_prefix p (c # cs) then Some (length p) else map_option Suc (find_ci p cs))"

text \<open>
  A regular expression is represented by its matcher: applied to the rest of the input it
  gives the length of the match that starts there, if there is one. None of the expressions
  of the source looks behind the position where its match starts, and none matches the
  empty string.
\<close>

type_synonym matcher = "js_string \<Rightarrow> nat option"

fun replace_all :: "matcher \<Rightarrow> js_string \<Rightarrow> js_string \<Rightarrow> js_string" where
  \<comment> \<open>\<^verbatim>\<open>s.replace(re, r)\<close> for a global \<^verbatim>\<open>re\<close>: leftmost matches, scanning resumes behind each\<close>
  "replace_all m r [] = []"
| "replace_all m r (c # cs) =
     (case m (c # cs) of
        Some (Suc n) \<Rightarrow> r @ replace_all m r (drop n cs)
      | _ \<Rightarrow> c # replace_all m r cs)"

fun split_re :: "matcher \<Rightarrow> js_string \<Rightarrow> js_string \<Rightarrow> js_string list" where
  \<comment> \<open>\<^verbatim>\<open>s.split(re)\<close>; the second argument is the piece collected since the last separator\<close>
  "split_re m cur [] = [cur]"
| "split_re m cur (c # cs) =
     (case m (c # cs) of
        Some (Suc n) \<Rightarrow> cur # split_re m [] (drop n cs)
      | _ \<Rightarrow> split_re m (cur @ [c]) cs)"

definition re_spaces :: matcher where
  \<comment> \<open>\<^verbatim>\<open>/\s+/\<close>\<close>
  "re_spaces s = (case takeWhile is_space s of [] \<Rightarrow> None | ws \<Rightarrow> Some (length ws))"

definition last_newline :: "js_string \<Rightarrow> nat option" where
  \<comment> \<open>the offset just behind the last line feed of a string\<close>
  "last_newline ws =
     (case dropWhile (\<lambda>c. c \<noteq> 0x0A) (rev ws) of [] \<Rightarrow> None | t \<Rightarrow> Some (length t))"

definition re_blank_lines :: matcher where
  \<comment> \<open>\<^verbatim>\<open>/\n\s*\n/\<close>: a line feed, then the greedy \<^verbatim>\<open>\s*\<close> backs off to the last line feed of
      the white-space run\<close>
  "re_blank_lines s =
     (case s of
        [] \<Rightarrow> None
      | c # cs \<Rightarrow>
          if c = 0x0A then map_option Suc (last_newline (takeWhile is_space cs)) else None)"

definition re_block :: "string \<Rightarrow> matcher" where
  \<comment> \<open>\<^verbatim>\<open>/<tag\b[^<]*(?:(?!<\/tag>)<[^<]*)*<\/tag>/i\<close>: the opening, a word boundary, and
      everything up to the first closing tag; every \<^verbatim>\<open><\<close> on the way is one where the
      closing tag does not start\<close>
  "re_block tag s =
     (let opening = js (''<'' @ tag); closing = js (''</'' @ tag @ ''>'');
          rest = drop (length opening) s
      in if ci_prefix opening s \<and> (case rest of [] \<Rightarrow> True | c # _ \<Rightarrow> \<not> is_word c)
         then map_option (\<lambda>k. length opening + k) (find_ci closing rest)
         else None)"

definition re_javascript :: matcher where
  \<comment> \<open>\<^verbatim>\<open>/javascript:/i\<close>\<close>
  "re_javascript s =
     (if ci_prefix (js ''javascript:'') s then Some (length ''javascript:'') else None)"

definition re_handler :: matcher where
  \<comment> \<open>\<^verbatim>\<open>/on\w+\s*=/i\<close>: both greedy runs are maximal, backing off never helps\<close>
  "re_handler s =
     (let r1 = drop 2 s; w = takeWhile is_word r1; r2 = dropWhile is_word r1;
          sp = takeWhile is_space r2; r3 = dropWhile is_space r2
      in if ci_prefix (js ''on'') s \<and> w \<noteq> [] \<and> (case r3 of [] \<Rightarrow> False | c # _ \<Rightarrow> c = 0x3D)
         then Some (2 + length w + length sp + 1)
         else None)"

definition first_digits :: "js_string \<Rightarrow> js_string option" where
  \<comment> \<open>\<^verbatim>\<open>text.match(/\d+/)?.[0]\<close>\<close>
  "first_digits s =
     (case takeWhile is_digit (dropWhile (\<lambda>c. \<not> is_digit c) s) of
        [] \<Rightarrow> None
      | ds \<Rightarrow> Some ds)"

definition decimal :: "js_string \<Rightarrow> nat" where
  \<comment> \<open>the integer that a string of decimal digits denotes\<close>
  "decimal ds = foldl (\<lambda>n d. 10 * n + (unat d - 48)) 0 ds"

fun bit_length :: "nat \<Rightarrow> nat" where
  "bit_length n = (if n = 0 then 0 else Suc (bit_length (n div 2)))"

declare bit_length.simps [simp del]

definition to_double :: "nat \<Rightarrow> enat" where
  \<comment> \<open>the Number value of an integer: the nearest double, a tie going to the even
      significand of 53 bits; \<open>\<infinity>\<close> is \<^verbatim>\<open>Infinity\<close>\<close>
  "to_double n =
     (if n < 2 ^ 53 then enat n
      else
        let e = bit_length n - 53; q = n div 2 ^ e; r = n mod 2 ^ e;
            m = (if 2 ^ e < 2 * r \<or> (2 * r = 2 ^ e \<and> odd q) then q + 1 else q)
        in if m * 2 ^ e < 2 ^ 1024 then enat (m * 2 ^ e) else \<infinity>)"

definition parseInt :: "js_string \<Rightarrow> enat" where
  \<comment> \<open>\<^verbatim>\<open>parseInt\<close> on a string of decimal digits: a double, correctly rounded\<close>
  "parseInt ds = to_double (decimal ds)"

definition truthy :: "js_string option \<Rightarrow> js_string option" where
  \<comment> \<open>\<^verbatim>\<open>x || null\<close> and \<^verbatim>\<open>x || undefined\<close> on a string that may be null\<close>
  "truthy x = (case x of None \<Rightarrow> None | Some v \<Rightarrow> if v = [] then None else Some v)"


section \<open>The article model (models/Article.ts)\<close>

record CreateArticleData =
  title :: js_string
  content :: js_string
  url :: js_string
  tags :: "js_string list option"

datatype row_key = AutoId nat | Uuid nat

record Article =
  article_id :: row_key
  article_title :: js_string
  article_content :: js_string
  article_url :: js_string
  enhancedContent :: "js_string option"
  isEnhanced :: bool
  wordCount :: nat
  readingTime :: nat
  article_tags :: "js_string list"

definition calculateWordCount :: "js_string \<Rightarrow> nat" where
  "calculateWordCount c =
     length (filter (\<lambda>word. length word > 0) (split_re re_spaces [] (trim c)))"

definition calculateReadingTime :: "nat \<Rightarrow> nat" where
  \<comment> \<open>\<^verbatim>\<open>Math.ceil(wordCount / 200)\<close>; the quotient of doubles is exact enough for every
      count a string can hold\<close>
  "calculateReadingTime wc = nat \<lceil>real wc / 200\<rceil>"

definition sanitizeArticleContent :: "js_string \<Rightarrow> js_string" where
  "sanitizeArticleContent c =
     trim
       (replace_all re_handler []
         (replace_all re_javascript []
           (replace_all (re_block ''iframe'') []
             (replace_all (re_block ''script'') [] c))))"


section \<open>The article store (repositories/ArticleRepository.ts)\<close>

text \<open>
  The table \<^verbatim>\<open>articles\<close>: the column \<^verbatim>\<open>url\<close> is \<^verbatim>\<open>UNIQUE\<close>. The scripts of the repository
  declare the key as \<^verbatim>\<open>id VARCHAR(36) DEFAULT (UUID())\<close>, for which the driver reports
  \<^verbatim>\<open>insertId = 0\<close>; the repository code reads \<^verbatim>\<open>insertId\<close> as an \<^verbatim>\<open>AUTO_INCREMENT\<close> key would set
  it. The schema file of the migrations is not part of the sources, so the store carries the
  kind of key it has. Time stamps are left out; keys are compared exactly.
\<close>

record article_row =
  row_id :: row_key
  row_title :: js_string
  row_content :: js_string
  row_url :: js_string
  enhanced_content :: "js_string option"
  is_enhanced :: bool
  word_count :: nat
  reading_time :: nat
  row_tags :: "js_string list"

record db =
  articles :: "article_row list"
  auto_increment :: bool
  next_key :: nat

datatype repo_error = ER_DUP_ENTRY | Error string

definition insert_article ::
  "db \<Rightarrow> js_string \<Rightarrow> js_string \<Rightarrow> js_string \<Rightarrow> nat \<Rightarrow> nat \<Rightarrow> js_string list
     \<Rightarrow> repo_error + nat \<times> db" where
  \<comment> \<open>\<^verbatim>\<open>INSERT INTO articles (title, content, url, word_count, reading_time, tags)\<close>; the
      result is \<^verbatim>\<open>insertId\<close> and the new table\<close>
  "insert_article d t c u wc rt tg =
     (if \<exists>r \<in> set (articles d). row_url r = u then Inl ER_DUP_ENTRY
      else
        let k = next_key d;
            row = \<lparr>row_id = (if auto_increment d then AutoId k else Uuid k),
                   row_title = t, row_content = c, row_url = u, enhanced_content = None,
                   is_enhanced = False, word_count = wc, reading_time = rt, row_tags = tg\<rparr>
        in Inr (if auto_increment d then k else 0,
                d\<lparr>articles := articles d @ [row], next_key := Suc k\<rparr>))"

definition mapRowToArticle :: "article_row \<Rightarrow> Article" where
  \<comment> \<open>\<^verbatim>\<open>enhancedContent: row.enhanced_content || undefined\<close>: an empty string becomes undefined\<close>
  "mapRowToArticle row =
     \<lparr>article_id = row_id row, article_title = row_title row, article_content = row_content row,
      article_url = row_url row, enhancedContent = truthy (enhanced_content row),
      isEnhanced = is_enhanced row, wordCount = word_count row,
      readingTime = reading_time row, article_tags = row_tags row\<rparr>"

definition findById :: "db \<Rightarrow> row_key \<Rightarrow> Article option" where
  "findById d k =
     (case filter (\<lambda>r. row_id r = k) (articles d) of
        [] \<Rightarrow> None
      | r # _ \<Rightarrow> Some (mapRowToArticle r))"

definition findByUrl :: "db \<Rightarrow> js_string \<Rightarrow> repo_error + Article option" where
  "findByUrl d u =
     (case filter (\<lambda>r. row_url r = u) (articles d) of
        [] \<Rightarrow> Inr None
      | r # _ \<Rightarrow> Inr (Some (mapRowToArticle r)))"

definition create :: "db \<Rightarrow> CreateArticleData \<Rightarrow> (repo_error + Article) \<times> db" where
  \<comment> \<open>\<^verbatim>\<open>findById(result.insertId.toString())\<close> can only find a row with that integer key\<close>
  "create d data =
     (let sanitizedContent = sanitizeArticleContent (content data);
          wc = calculateWordCount sanitizedContent;
          rt = calculateReadingTime wc
      in case insert_article d (trim (title data)) sanitizedContent (url data) wc rt
                (case tags data of None \<Rightarrow> [] | Some ts \<Rightarrow> ts) of
           Inl e \<Rightarrow> (Inl e, d)
         | Inr (insertId, d') \<Rightarrow>
             if insertId = 0 then (Inl (Error ''Failed to create article - no ID returned''), d')
             else (case findById d' (AutoId insertId) of
                     None \<Rightarrow> (Inl (Error ''Failed to retrieve created article''), d')
                   | Some createdArticle \<Rightarrow> (Inr createdArticle, d')))"

definition count :: "db \<Rightarrow> nat" where
  "count d = length (articles d)"

text \<open>The orchestrators are written over the two operations of a repository they call.\<close>

record 'd ArticleRepository =
  repo_findByUrl :: "'d \<Rightarrow> js_string \<Rightarrow> repo_error + Article option"
  repo_create :: "'d \<Rightarrow> CreateArticleData \<Rightarrow> (repo_error + Article) \<times> 'd"

definition articleRepository :: "db ArticleRepository" where
  "articleRepository = \<lparr>repo_findByUrl = findByUrl, repo_create = create\<rparr>"


section \<open>The scraper (services/WebScraperService.ts)\<close>

subsection \<open>What the service consumes\<close>

text \<open>
  A rendered page answers selector queries in document order. A call of the automation
  library with a selector may throw (\<open>fails\<close>), and so may the evaluation of a function in
  the page (\<open>evaluate_fails\<close>).
\<close>

record element =
  textContent :: js_string
  innerHTML :: js_string
  attributes :: "(string \<times> js_string) list"

record page =
  querySelectorAll :: "string \<Rightarrow> element list"
  fails :: "string \<Rightarrow> bool"
  evaluate_fails :: bool
  documentTitle :: js_string

definition getAttribute :: "element \<Rightarrow> string \<Rightarrow> js_string option" where
  "getAttribute el name = map_of (attributes el) name"

definition querySelector :: "page \<Rightarrow> string \<Rightarrow> element option" where
  "querySelector p selector = (case querySelectorAll p selector of [] \<Rightarrow> None | el # _ \<Rightarrow> Some el)"

text \<open>The tree that the HTML parser builds, as far as the cleaning looks at it.\<close>

datatype node = TextNode js_string | ElementNode string "string list" "node list"

text \<open>
  The environment of a run: whether the browser launches, the page a navigation renders
  (\<open>None\<close>: the navigation throws), the HTML parser \<^verbatim>\<open>cheerio.load\<close>, the resolution
  \<^verbatim>\<open>new URL(href, base).toString()\<close> (\<open>None\<close>: it throws), and \<^verbatim>\<open>toLowerCase\<close>.
\<close>

record env =
  launch_ok :: bool
  goto :: "js_string \<Rightarrow> page option"
  cheerio_load :: "js_string \<Rightarrow> node list"
  new_URL :: "js_string \<Rightarrow> js_string \<Rightarrow> js_string option"
  toLowerCase :: "js_string \<Rightarrow> js_string"

datatype Browser = Browser

record WebScraperService =
  browser :: "Browser option"

datatype scrape_error = LaunchError | NavigationError

definition baseUrl :: js_string where
  "baseUrl = js ''https://beyondchats.com/blogs''"

subsection \<open>The browser session\<close>

definition initBrowser :: "env \<Rightarrow> WebScraperService \<Rightarrow> (scrape_error + Browser) \<times> WebScraperService" where
  "initBrowser e svc =
     (case browser svc of
        Some b \<Rightarrow> (Inr b, svc)
      | None \<Rightarrow>
          if launch_ok e then (Inr Browser, svc\<lparr>browser := Some Browser\<rparr>)
          else (Inl LaunchError, svc))"

definition closeBrowser :: "WebScraperService \<Rightarrow> WebScraperService" where
  "closeBrowser svc = (if browser svc \<noteq> None then svc\<lparr>browser := None\<rparr> else svc)"

subsection \<open>Pagination\<close>

definition paginationSelectors :: "string list" where
  \<open>paginationSelectors =
     [''a[aria-label="Last page"]'', ''.pagination a:last-child'', ''.page-numbers:last-child'',
      ''a[title*="last"]'', ''a[title*="Last"]'']\<close>

definition absolute :: "env \<Rightarrow> js_string \<Rightarrow> js_string option" where
  \<comment> \<open>\<^verbatim>\<open>href.startsWith('http') ? href : new URL(href, this.baseUrl).toString()\<close>\<close>
  "absolute e href = (if startsWith href (js ''http'') then Some href else new_URL e href baseUrl)"

fun explicitLastPage :: "env \<Rightarrow> page \<Rightarrow> string list \<Rightarrow> js_string option" where
  \<comment> \<open>the loop over \<open>paginationSelectors\<close>; what throws inside is caught and the loop goes on\<close>
  "explicitLastPage e p [] = None"
| "explicitLastPage e p (selector # rest) =
     (if fails p selector then explicitLastPage e p rest
      else case querySelector p selector of
             None \<Rightarrow> explicitLastPage e p rest
           | Some lastPageElement \<Rightarrow>
               (case getAttribute lastPageElement ''href'' of
                  None \<Rightarrow> explicitLastPage e p rest
                | Some href \<Rightarrow>
                    if href = [] then explicitLastPage e p rest
                    else (case absolute e href of
                            Some u \<Rightarrow> Some u
                          | None \<Rightarrow> explicitLastPage e p rest)))"

record page_link =
  link_href :: "js_string option"
  link_text :: js_string

definition pageNumber :: "page_link \<Rightarrow> enat" where
  \<comment> \<open>\<^verbatim>\<open>parseInt(a.text?.match(/\d+/)?.[0] || '0')\<close>\<close>
  "pageNumber a = parseInt (case first_digits (link_text a) of None \<Rightarrow> js ''0'' | Some ds \<Rightarrow> ds)"

definition pageLink :: "element \<Rightarrow> page_link" where
  \<comment> \<open>the \<^verbatim>\<open>map\<close> of the callback of \<^verbatim>\<open>$$eval\<close>\<close>
  "pageLink el = \<lparr>link_href = getAttribute el ''href'', link_text = trim (textContent el)\<rparr>"

definition numberedLinks :: "page \<Rightarrow> page_link list" where
  \<comment> \<open>the \<^verbatim>\<open>filter\<close> of the callback\<close>
  \<open>numberedLinks p =
     filter (\<lambda>item. truthy (link_href item) \<noteq> None \<and> first_digits (link_text item) \<noteq> None)
       (map pageLink (querySelectorAll p ''a[href*="page"]''))\<close>

definition byNumber :: "page_link \<Rightarrow> page_link \<Rightarrow> int" where
  \<comment> \<open>the comparator, by the sign of \<^verbatim>\<open>numB - numA\<close>; \<^verbatim>\<open>Infinity - Infinity\<close> is \<^verbatim>\<open>NaN\<close>,
      which \<^verbatim>\<open>sort\<close> reads as 0\<close>
  "byNumber a b =
     (let numA = pageNumber a; numB = pageNumber b
      in if numB < numA then - 1 else if numA < numB then 1 else 0)"

fun insert_by :: "('a \<Rightarrow> 'a \<Rightarrow> int) \<Rightarrow> 'a \<Rightarrow> 'a list \<Rightarrow> 'a list" where
  "insert_by cmp x [] = [x]"
| "insert_by cmp x (y # ys) = (if cmp x y \<le> 0 then x # y # ys else y # insert_by cmp x ys)"

fun sort_by :: "('a \<Rightarrow> 'a \<Rightarrow> int) \<Rightarrow> 'a list \<Rightarrow> 'a list" where
  \<comment> \<open>\<^verbatim>\<open>Array.prototype.sort\<close> with a comparator: a stable sort, here by insertion from the
      right, where an element goes before the first one it does not sort behind\<close>
  "sort_by cmp [] = []"
| "sort_by cmp (x # xs) = insert_by cmp x (sort_by cmp xs)"

definition pageNumbers :: "page \<Rightarrow> page_link list" where
  \<comment> \<open>the \<^verbatim>\<open>sort\<close> that ends the callback\<close>
  "pageNumbers p = sort_by byNumber (numberedLinks p)"

definition findLastPage :: "env \<Rightarrow> page \<Rightarrow> js_string option" where
  \<open>findLastPage e p =
     (case explicitLastPage e p paginationSelectors of
        Some u \<Rightarrow> Some u
      | None \<Rightarrow>
          if fails p ''a[href*="page"]'' then None
          else (case pageNumbers p of
                  [] \<Rightarrow> None
                | first # _ \<Rightarrow>
                    (case link_href first of None \<Rightarrow> None | Some lastPageHref \<Rightarrow> absolute e lastPageHref)))\<close>

subsection \<open>Links of a listing page\<close>

definition articleSelectors :: "string list" where
  \<open>articleSelectors =
     [''article a[href*="/blog"]'', ''.blog-post a'', ''.post-title a'', ''h2 a[href*="/blog"]'',
      ''h3 a[href*="/blog"]'', ''.entry-title a'', ''a[href*="/blogs/"]'']\<close>

definition site_link :: "js_string \<Rightarrow> js_string" where
  \<comment> \<open>\<^verbatim>\<open>href?.startsWith('http') ? href : `https://www.beyondchats.com${href}`\<close>\<close>
  "site_link href =
     (if startsWith href (js ''http'') then href else js ''https://www.beyondchats.com'' @ href)"

definition foundLinks :: "page \<Rightarrow> string \<Rightarrow> js_string list" where
  \<comment> \<open>the callback of \<^verbatim>\<open>$$eval\<close> in \<^verbatim>\<open>extractArticleLinks\<close>: the attributes that are
      \<^verbatim>\<open>null\<close> do not pass its filter\<close>
  "foundLinks p selector =
     map site_link
       (filter (\<lambda>href. href \<noteq> [] \<and> str_includes href (js ''/blog''))
          (concat (map (\<lambda>el. case getAttribute el ''href'' of None \<Rightarrow> [] | Some h \<Rightarrow> [h])
             (querySelectorAll p selector))))"

fun firstLinks :: "page \<Rightarrow> string list \<Rightarrow> js_string list" where
  \<comment> \<open>the loop over \<open>articleSelectors\<close> with its \<^verbatim>\<open>break\<close>\<close>
  "firstLinks p [] = []"
| "firstLinks p (selector # rest) =
     (if fails p selector then firstLinks p rest
      else if length (foundLinks p selector) > 0 then foundLinks p selector
      else firstLinks p rest)"

definition new_Set :: "'a list \<Rightarrow> 'a list" where
  \<comment> \<open>\<^verbatim>\<open>[...new Set(links)]\<close>: a set iterates in insertion order\<close>
  "new_Set xs = foldl (\<lambda>seen x. if x \<in> set seen then seen else seen @ [x]) [] xs"

definition extractArticleLinks :: "page \<Rightarrow> js_string list" where
  "extractArticleLinks p = new_Set (firstLinks p articleSelectors)"


subsection \<open>Cleaning and tags\<close>

definition unwanted :: "node \<Rightarrow> bool" where
  \<comment> \<open>the selector \<^verbatim>\<open>script, style, nav, header, footer, aside, .advertisement, .ads\<close>\<close>
  "unwanted n =
     (case n of
        TextNode _ \<Rightarrow> False
      | ElementNode name classes _ \<Rightarrow>
          name \<in> set [''script'', ''style'', ''nav'', ''header'', ''footer'', ''aside'']
          \<or> ''advertisement'' \<in> set classes \<or> ''ads'' \<in> set classes)"

fun remove_unwanted :: "node \<Rightarrow> node" where
  \<comment> \<open>\<^verbatim>\<open>$(...).remove()\<close> below a node\<close>
  "remove_unwanted (TextNode t) = TextNode t"
| "remove_unwanted (ElementNode name classes children) =
     ElementNode name classes (map remove_unwanted (filter (\<lambda>n. \<not> unwanted n) children))"

fun node_text :: "node \<Rightarrow> js_string" where
  "node_text (TextNode t) = t"
| "node_text (ElementNode name classes children) = concat (map node_text children)"

definition html_text :: "env \<Rightarrow> js_string \<Rightarrow> js_string" where
  \<comment> \<open>\<^verbatim>\<open>cheerio.load\<close>, the removal, and \<^verbatim>\<open>$.text()\<close>\<close>
  "html_text e c =
     concat (map node_text (map remove_unwanted (filter (\<lambda>n. \<not> unwanted n) (cheerio_load e c))))"

definition clean_whitespace :: "js_string \<Rightarrow> js_string" where
  \<comment> \<open>the two replacements and the \<^verbatim>\<open>trim\<close> of \<^verbatim>\<open>cleanArticleContent\<close>\<close>
  "clean_whitespace t =
     trim (replace_all re_blank_lines (js [CHR 0x0A, CHR 0x0A]) (replace_all re_spaces (js '' '') t))"

definition cleanArticleContent :: "env \<Rightarrow> js_string \<Rightarrow> js_string" where
  "cleanArticleContent e c = clean_whitespace (html_text e c)"

definition commonTags :: "js_string list" where
  "commonTags = map js
     [''ai'', ''chatbot'', ''automation'', ''customer service'', ''technology'',
      ''business'', ''marketing'', ''support'', ''communication'', ''digital'',
      ''innovation'', ''software'', ''platform'', ''solution'', ''analytics'']"

definition extractTags :: "env \<Rightarrow> js_string \<Rightarrow> js_string \<Rightarrow> js_string list" where
  "extractTags e t c =
     (let text = toLowerCase e (t @ js '' '' @ c)
      in filter (\<lambda>tag. str_includes text tag) commonTags)"

subsection \<open>One article\<close>

definition titleSelectors :: "string list" where
  "titleSelectors = [''h1'', ''.post-title'', ''.entry-title'', ''.article-title'', ''title'']"

definition contentSelectors :: "string list" where
  "contentSelectors =
     [''.post-content'', ''.entry-content'', ''.article-content'', ''.blog-content'',
      ''main article'', ''.content'']"

definition dateSelectors :: "string list" where
  \<open>dateSelectors = [''time[datetime]'', ''.post-date'', ''.published'', ''.entry-date'', ''[class*="date"]'']\<close>

fun titleCascade :: "page \<Rightarrow> js_string \<Rightarrow> string list \<Rightarrow> js_string" where
  "titleCascade p t [] = t"
| "titleCascade p t (selector # rest) =
     (case querySelector p selector of
        None \<Rightarrow> titleCascade p t rest
      | Some el \<Rightarrow>
          if trim (textContent el) \<noteq> [] then trim (textContent el)
          else titleCascade p t rest)"

definition or_else :: "js_string \<Rightarrow> js_string \<Rightarrow> js_string" where
  \<comment> \<open>\<^verbatim>\<open>a || b\<close> on strings: the empty string is falsy\<close>
  "or_else a b = (if a \<noteq> [] then a else b)"

fun contentCascade :: "page \<Rightarrow> js_string \<Rightarrow> string list \<Rightarrow> js_string" where
  \<comment> \<open>the variable \<^verbatim>\<open>content\<close> keeps what the last element found gave, also when the loop
      does not break on it\<close>
  "contentCascade p c [] = c"
| "contentCascade p c (selector # rest) =
     (case querySelector p selector of
        None \<Rightarrow> contentCascade p c rest
      | Some el \<Rightarrow>
          (let c' = or_else (innerHTML el) (or_else (textContent el) [])
           in if trim c' \<noteq> [] then c' else contentCascade p c' rest))"

fun dateCascade :: "page \<Rightarrow> js_string option \<Rightarrow> string list \<Rightarrow> js_string option" where
  "dateCascade p d [] = d"
| "dateCascade p d (selector # rest) =
     (case querySelector p selector of
        None \<Rightarrow> dateCascade p d rest
      | Some el \<Rightarrow>
          (let d' = (case truthy (getAttribute el ''datetime'') of
                       Some v \<Rightarrow> Some v
                     | None \<Rightarrow>
                         (case truthy (getAttribute el ''content'') of
                            Some v \<Rightarrow> Some v
                          | None \<Rightarrow> truthy (Some (trim (textContent el)))))
           in if d' \<noteq> None then d' else dateCascade p d' rest))"

record article_data =
  data_title :: js_string
  data_content :: js_string
  publishedDate :: "js_string option"

definition pageArticleData :: "page \<Rightarrow> article_data" where
  \<comment> \<open>the function that \<^verbatim>\<open>scrapeArticleContent\<close> evaluates in the page\<close>
  "pageArticleData p =
     \<lparr>data_title = or_else (titleCascade p [] titleSelectors)
                     (or_else (documentTitle p) (js ''Untitled'')),
      data_content = or_else (contentCascade p [] contentSelectors) [],
      publishedDate = dateCascade p None dateSelectors\<rparr>"

definition validated :: "env \<Rightarrow> js_string \<Rightarrow> article_data \<Rightarrow> CreateArticleData option" where
  \<comment> \<open>\<^verbatim>\<open>scrapeArticleContent\<close> from "Validate extracted data" to its \<^verbatim>\<open>return\<close>\<close>
  "validated e u ad =
     (if data_title ad = [] \<or> data_content ad = [] then None
      else
        let cleanContent = cleanArticleContent e (data_content ad)
        in if length cleanContent < 100 then None
           else Some \<lparr>title = take 500 (data_title ad), content = cleanContent, url = u,
                      tags = Some (extractTags e (data_title ad) cleanContent)\<rparr>)"

definition scrapeArticleContent ::
  "env \<Rightarrow> WebScraperService \<Rightarrow> js_string \<Rightarrow> CreateArticleData option \<times> WebScraperService" where
  \<comment> \<open>whatever throws is caught and gives \<^verbatim>\<open>null\<close>\<close>
  "scrapeArticleContent e svc u =
     (case initBrowser e svc of
        (Inl _, svc') \<Rightarrow> (None, svc')
      | (Inr _, svc') \<Rightarrow>
          (case goto e u of
             None \<Rightarrow> (None, svc')
           | Some p \<Rightarrow>
               if evaluate_fails p then (None, svc')
               else (validated e u (pageArticleData p), svc')))"

subsection \<open>The oldest articles\<close>

fun scrapeEach ::
  "env \<Rightarrow> WebScraperService \<Rightarrow> js_string list \<Rightarrow> CreateArticleData list
     \<Rightarrow> CreateArticleData list \<times> WebScraperService" where
  "scrapeEach e svc [] scrapedArticles = (scrapedArticles, svc)"
| "scrapeEach e svc (link # rest) scrapedArticles =
     (case scrapeArticleContent e svc link of
        (None, svc') \<Rightarrow> scrapeEach e svc' rest scrapedArticles
      | (Some article, svc') \<Rightarrow> scrapeEach e svc' rest (scrapedArticles @ [article]))"

definition scrapeOldestArticles ::
  "env \<Rightarrow> WebScraperService \<Rightarrow> (scrape_error + CreateArticleData list) \<times> WebScraperService" where
  "scrapeOldestArticles e svc =
     (case initBrowser e svc of
        (Inl err, svc') \<Rightarrow> (Inl err, svc')
      | (Inr _, svc') \<Rightarrow>
          (case goto e baseUrl of
             None \<Rightarrow> (Inl NavigationError, svc')
           | Some listing \<Rightarrow>
               (case (case findLastPage e listing of
                        None \<Rightarrow> Some listing
                      | Some lastPageUrl \<Rightarrow>
                          if lastPageUrl \<noteq> [] \<and> lastPageUrl \<noteq> baseUrl then goto e lastPageUrl
                          else Some listing) of
                  None \<Rightarrow> (Inl NavigationError, svc')
                | Some p \<Rightarrow>
                    (case scrapeEach e svc' (take 5 (extractArticleLinks p)) [] of
                       (scrapedArticles, svc2) \<Rightarrow> (Inr scrapedArticles, svc2)))))"


section \<open>The ingestion run\<close>

subsection \<open>The controller (controllers/ScraperController.ts)\<close>

record error_detail =
  err_title :: js_string
  err_url :: js_string
  err_error :: repo_error

record summary =
  scraped :: nat
  saved :: nat
  errors :: nat
  saved_articles :: "Article list"
  errorDetails :: "error_detail list"

datatype response = Response (status: nat) (success: bool) (data: "summary option")

fun storeArticles ::
  "'d ArticleRepository \<Rightarrow> 'd \<Rightarrow> CreateArticleData list \<Rightarrow> Article list \<Rightarrow> error_detail list
     \<Rightarrow> Article list \<times> error_detail list \<times> 'd" where
  \<comment> \<open>the loop "Store articles in database": an article found by its URL is pushed to
      \<^verbatim>\<open>savedArticles\<close> as a created one is; what throws is pushed to \<^verbatim>\<open>errors\<close>\<close>
  "storeArticles repo d [] savedArticles errs = (savedArticles, errs, d)"
| "storeArticles repo d (articleData # rest) savedArticles errs =
     (case repo_findByUrl repo d (url articleData) of
        Inl err \<Rightarrow>
          storeArticles repo d rest savedArticles
            (errs @ [\<lparr>err_title = title articleData, err_url = url articleData, err_error = err\<rparr>])
      | Inr (Some existingArticle) \<Rightarrow>
          storeArticles repo d rest (savedArticles @ [existingArticle]) errs
      | Inr None \<Rightarrow>
          (case repo_create repo d articleData of
             (Inl err, d') \<Rightarrow>
               storeArticles repo d' rest savedArticles
                 (errs @ [\<lparr>err_title = title articleData, err_url = url articleData, err_error = err\<rparr>])
           | (Inr savedArticle, d') \<Rightarrow>
               storeArticles repo d' rest (savedArticles @ [savedArticle]) errs))"

definition controller_scrapeOldestArticles ::
  "env \<Rightarrow> 'd ArticleRepository \<Rightarrow> WebScraperService \<Rightarrow> 'd \<Rightarrow> response \<times> WebScraperService \<times> 'd" where
  \<comment> \<open>\<^verbatim>\<open>ScraperController.scrapeOldestArticles\<close>: the response, the service and the store
      when it returns\<close>
  "controller_scrapeOldestArticles e repo svc d =
     (case scrapeOldestArticles e svc of
        (Inl err, svc') \<Rightarrow> (Response 500 False None, closeBrowser svc', d)
      | (Inr scrapedArticles, svc') \<Rightarrow>
          if length scrapedArticles = 0 then (Response 404 False None, svc', d)
          else (case storeArticles repo d scrapedArticles [] [] of
                  (savedArticles, errs, d') \<Rightarrow>
                    (Response 200 True
                       (Some \<lparr>scraped = length scrapedArticles, saved = length savedArticles,
                              errors = length errs, saved_articles = savedArticles,
                              errorDetails = errs\<rparr>),
                     closeBrowser svc', d')))"

subsection \<open>The script (scripts/scrapeArticles.ts)\<close>

record script_summary =
  found :: nat
  savedCount :: nat
  skippedCount :: nat
  errorCount :: nat

datatype script_exit = Exit nat | Return "script_summary option"

fun saveArticles ::
  "'d ArticleRepository \<Rightarrow> 'd \<Rightarrow> CreateArticleData list \<Rightarrow> nat \<Rightarrow> nat \<Rightarrow> nat
     \<Rightarrow> (nat \<times> nat \<times> nat) \<times> 'd" where
  \<comment> \<open>the loop "Save articles to database" with its three counters\<close>
  "saveArticles repo d [] sv sk er = ((sv, sk, er), d)"
| "saveArticles repo d (articleData # rest) sv sk er =
     (case repo_findByUrl repo d (url articleData) of
        Inl err \<Rightarrow> saveArticles repo d rest sv sk (er + 1)
      | Inr (Some existingArticle) \<Rightarrow> saveArticles repo d rest sv (sk + 1) er
      | Inr None \<Rightarrow>
          (case repo_create repo d articleData of
             (Inl err, d') \<Rightarrow> saveArticles repo d' rest sv sk (er + 1)
           | (Inr savedArticle, d') \<Rightarrow> saveArticles repo d' rest (sv + 1) sk er))"

definition script_main ::
  "env \<Rightarrow> 'd ArticleRepository \<Rightarrow> WebScraperService \<Rightarrow> 'd \<Rightarrow> script_exit \<times> WebScraperService \<times> 'd" where
  \<comment> \<open>\<^verbatim>\<open>main\<close> from "Scrape articles" on; \<^verbatim>\<open>process.exit(1)\<close> in the \<^verbatim>\<open>catch\<close> ends the process
      before the \<^verbatim>\<open>finally\<close>\<close>
  "script_main e repo svc d =
     (case scrapeOldestArticles e svc of
        (Inl err, svc') \<Rightarrow> (Exit 1, svc', d)
      | (Inr scrapedArticles, svc') \<Rightarrow>
          if length scrapedArticles = 0 then (Return None, closeBrowser svc', d)
          else (case saveArticles repo d scrapedArticles 0 0 0 of
                  ((sv, sk, er), d') \<Rightarrow>
                    (Return (Some \<lparr>found = length scrapedArticles, savedCount = sv,
                                     skippedCount = sk, errorCount = er\<rparr>),
                     closeBrowser svc', d')))"


section \<open>What the specification speaks of\<close>

function words_of :: "js_string \<Rightarrow> js_string list" where
  \<comment> \<open>the white-space separated, non-empty words of a string\<close>
  "words_of [] = []"
| "words_of (c # cs) =
     (if is_space c then words_of cs
      else takeWhile (\<lambda>x. \<not> is_space x) (c # cs) # words_of (dropWhile (\<lambda>x. \<not> is_space x) cs))"
  by pat_completeness auto
termination
  by (relation "measure length") (auto simp: less_Suc_eq_le length_dropWhile_le)

fun first_seen :: "'a list \<Rightarrow> 'a list" where
  \<comment> \<open>duplicates removed, every element at the place of its first occurrence\<close>
  "first_seen [] = []"
| "first_seen (x # xs) = x # first_seen (filter (\<lambda>y. y \<noteq> x) xs)"

definition is_scheme_char :: "js_char \<Rightarrow> bool" where
  "is_scheme_char c \<longleftrightarrow>
     (0x41 \<le> c \<and> c \<le> 0x5A) \<or> (0x61 \<le> c \<and> c \<le> 0x7A) \<or> is_digit c
     \<or> c = 0x2B \<or> c = 0x2D \<or> c = 0x2E"

definition is_absolute_url :: "js_string \<Rightarrow> bool" where
  \<comment> \<open>an absolute URL starts with a scheme and a colon\<close>
  "is_absolute_url u \<longleftrightarrow>
     takeWhile is_scheme_char u \<noteq> []
     \<and> (case dropWhile is_scheme_char u of [] \<Rightarrow> False | c # _ \<Rightarrow> c = 0x3A)"

fun single_spaced :: "js_string \<Rightarrow> bool" where
  \<comment> \<open>all white space is single blanks\<close>
  "single_spaced [] = True"
| "single_spaced [c] = (is_space c \<longrightarrow> c = 0x20)"
| "single_spaced (c # d # cs) =
     ((is_space c \<longrightarrow> c = 0x20 \<and> \<not> is_space d) \<and> single_spaced (d # cs))"

definition fresh_keys :: "db \<Rightarrow> bool" where
  \<comment> \<open>the keys an \<^verbatim>\<open>AUTO_INCREMENT\<close> column has given out lie below the next one\<close>
  "fresh_keys d \<longleftrightarrow> (\<forall>r \<in> set (articles d). \<forall>k. row_id r = AutoId k \<longrightarrow> k < next_key d)"

definition unique_urls :: "db \<Rightarrow> bool" where
  \<comment> \<open>the \<^verbatim>\<open>UNIQUE\<close> constraint on \<^verbatim>\<open>url\<close>\<close>
  "unique_urls d \<longleftrightarrow> distinct (map row_url (articles d))"



definition numbered :: "element \<Rightarrow> bool" where
  \<comment> \<open>a link with an \<^verbatim>\<open>href\<close> that is not empty and a digit in its trimmed text\<close>
  "numbered el \<longleftrightarrow>
     (case getAttribute el ''href'' of None \<Rightarrow> False | Some href \<Rightarrow> href \<noteq> [])
     \<and> (\<exists>c \<in> set (trim (textContent el)). is_digit c)"


section \<open>Concrete pages, environments and stores\<close>

fun decode_refs :: "js_string \<Rightarrow> js_string" where
  \<comment> \<open>the character references \<^verbatim>\<open>&amp;\<close>, \<^verbatim>\<open>&lt;\<close> and \<^verbatim>\<open>&gt;\<close> decoded, left to right\<close>
  "decode_refs [] = []"
| "decode_refs (c # cs) =
     (if startsWith (c # cs) (js ''&amp;'') then 0x26 # decode_refs (drop 4 cs)
      else if startsWith (c # cs) (js ''&lt;'') then 0x3C # decode_refs (drop 3 cs)
      else if startsWith (c # cs) (js ''&gt;'') then 0x3E # decode_refs (drop 3 cs)
      else c # decode_refs cs)"

definition plain_text_load :: "js_string \<Rightarrow> node list" where
  \<comment> \<open>what an HTML parser builds from markup without any tag: one text node, the character
      references decoded\<close>
  "plain_text_load s = [TextNode (decode_refs s)]"

definition svc0 :: WebScraperService where
  "svc0 = \<lparr>browser = None\<rparr>"

definition no_fail :: "string \<Rightarrow> bool" where
  "no_fail selector = False"

definition long_text :: js_string where
  "long_text = replicate 100 0x61"

definition example_url :: js_string where
  "example_url = js ''https://www.beyondchats.com/blogs/a''"

definition article_page :: page where
  "article_page =
     \<lparr>querySelectorAll = (\<lambda>selector.
         if selector = ''h1'' then
           [\<lparr>textContent = js '' Chatbots '', innerHTML = js '' Chatbots '', attributes = []\<rparr>]
         else if selector = ''.post-content'' then
           [\<lparr>textContent = long_text, innerHTML = long_text, attributes = []\<rparr>]
         else []),
      fails = no_fail, evaluate_fails = False, documentTitle = js ''Blog''\<rparr>"

definition listing_page :: page where
  "listing_page =
     \<lparr>querySelectorAll = (\<lambda>selector.
         if selector = ''.post-title a'' then
           [\<lparr>textContent = js ''Chatbots'', innerHTML = js ''Chatbots'',
             attributes = [(''href'', js ''/blogs/a'')]\<rparr>]
         else []),
      fails = no_fail, evaluate_fails = False, documentTitle = js ''Blogs''\<rparr>"

definition blank_page :: page where
  "blank_page = \<lparr>querySelectorAll = (\<lambda>selector. []), fails = no_fail, evaluate_fails = False, documentTitle = []\<rparr>"

definition site_URL :: "js_string \<Rightarrow> js_string \<Rightarrow> js_string option" where
  \<comment> \<open>resolution of a path that starts with a slash against the site\<close>
  "site_URL href base = Some (js ''https://beyondchats.com'' @ href)"

definition ascii_lower :: "js_string \<Rightarrow> js_string" where
  "ascii_lower s = map (\<lambda>c. if 0x41 \<le> c \<and> c \<le> 0x5A then c + 0x20 else c) s"

definition example_env :: env where
  "example_env =
     \<lparr>launch_ok = True,
      goto = (\<lambda>u. if u = baseUrl then Some listing_page
                  else if u = example_url then Some article_page
                  else None),
      cheerio_load = plain_text_load, new_URL = site_URL, toLowerCase = ascii_lower\<rparr>"

definition example_article :: CreateArticleData where
  "example_article =
     \<lparr>title = js ''Chatbots'', content = long_text, url = example_url,
      tags = Some (extractTags example_env (js ''Chatbots'') long_text)\<rparr>"

definition blank_env :: env where
  "blank_env =
     \<lparr>launch_ok = True, goto = (\<lambda>u. if u = baseUrl then Some blank_page else None),
      cheerio_load = plain_text_load, new_URL = site_URL, toLowerCase = ascii_lower\<rparr>"

definition empty_db :: db where
  "empty_db = \<lparr>articles = [], auto_increment = True, next_key = 1\<rparr>"

definition stored_db :: db where
  \<comment> \<open>a store that holds the article of \<open>example_url\<close> already\<close>
  "stored_db =
     \<lparr>articles =
        [\<lparr>row_id = AutoId 1, row_title = js ''Chatbots'', row_content = js ''old text'',
          row_url = example_url, enhanced_content = None, is_enhanced = False,
          word_count = 2, reading_time = 1, row_tags = []\<rparr>],
      auto_increment = True, next_key = 2\<rparr>"

definition stale_repository :: "db ArticleRepository" where
  \<comment> \<open>a repository whose lookup does not see the row yet, as when another run inserts it
      between the lookup and the insert\<close>
  "stale_repository = \<lparr>repo_findByUrl = (\<lambda>d u. Inr None), repo_create = create\<rparr>"

definition short_candidate :: CreateArticleData where
  "short_candidate =
     \<lparr>title = js '' Hi '', content = js ''<script>a b</script> see  me '', url = example_url,
      tags = None\<rparr>"

definition short_row :: article_row where
  "short_row =
     \<lparr>row_id = AutoId 1, row_title = js ''Hi'', row_content = js ''see  me'', row_url = example_url,
      enhanced_content = None, is_enhanced = False, word_count = 2, reading_time = 1,
      row_tags = []\<rparr>"



definition odd_href_page :: page where
  \<open>odd_href_page =
     \<lparr>querySelectorAll = (\<lambda>selector.
         if selector = ''article a[href*="/blog"]'' then
           [\<lparr>textContent = js ''A'', innerHTML = js ''A'',
             attributes = [(''href'', js ''httpx/blog/a'')]\<rparr>]
         else []),
      fails = no_fail, evaluate_fails = False, documentTitle = []\<rparr>\<close>

definition unpaged_link :: element where
  "unpaged_link =
     \<lparr>textContent = js ''2'', innerHTML = js ''2'', attributes = [(''href'', js ''/blogs/2'')]\<rparr>"

definition unpaged_page :: page where
  \<comment> \<open>a page whose only link is numbered and has no "page" in its \<^verbatim>\<open>href\<close>\<close>
  "unpaged_page =
     \<lparr>querySelectorAll = (\<lambda>selector. if selector = ''a'' then [unpaged_link] else []),
      fails = no_fail, evaluate_fails = False, documentTitle = []\<rparr>"

definition link_2 :: element where
  "link_2 = \<lparr>textContent = js ''2'', innerHTML = js ''2'', attributes = [(''href'', js ''/page/2'')]\<rparr>"

definition link_14 :: element where
  "link_14 =
     \<lparr>textContent = js '' 14 '', innerHTML = js '' 14 '', attributes = [(''href'', js ''/page/14'')]\<rparr>"

definition link_3 :: element where
  "link_3 = \<lparr>textContent = js ''3'', innerHTML = js ''3'', attributes = [(''href'', js ''/page/3'')]\<rparr>"

definition numbered_page :: page where
  \<open>numbered_page =
     \<lparr>querySelectorAll = (\<lambda>selector.
         if selector = ''a[href*="page"]'' then [link_2, link_14, link_3] else []),
      fails = no_fail, evaluate_fails = False, documentTitle = []\<rparr>\<close>

definition link_a :: element where
  "link_a =
     \<lparr>textContent = js ''9007199254740992'', innerHTML = js ''9007199254740992'',
      attributes = [(''href'', js ''/page/a'')]\<rparr>"

definition link_b :: element where
  "link_b =
     \<lparr>textContent = js ''9007199254740993'', innerHTML = js ''9007199254740993'',
      attributes = [(''href'', js ''/page/b'')]\<rparr>"

definition big_page :: page where
  \<comment> \<open>two page numbers that are one double, \<open>2 ^ 53\<close>\<close>
  \<open>big_page =
     \<lparr>querySelectorAll = (\<lambda>selector. if selector = ''a[href*="page"]'' then [link_a, link_b] else []),
      fails = no_fail, evaluate_fails = False, documentTitle = []\<rparr>\<close>

definition last_link_page :: page where
  \<comment> \<open>a page with an explicit link to the last page, and a numbered link\<close>
  \<open>last_link_page =
     \<lparr>querySelectorAll = (\<lambda>selector.
         if selector = ''a[aria-label="Last page"]'' then
           [\<lparr>textContent = js ''Last'', innerHTML = js ''Last'', attributes = [(''href'', js ''/page/9'')]\<rparr>]
         else if selector = ''a[href*="page"]'' then
           [\<lparr>textContent = js ''12'', innerHTML = js ''12'', attributes = [(''href'', js ''/page/12'')]\<rparr>,
            \<lparr>textContent = js ''Last'', innerHTML = js ''Last'', attributes = [(''href'', js ''/page/9'')]\<rparr>]
         else []),
      fails = no_fail, evaluate_fails = False, documentTitle = []\<rparr>\<close>


section \<open>Strings: facts for running the model\<close>

lemma re_spaces_None: "\<not> is_space c \<Longrightarrow> re_spaces (c # cs) = None"
  by (simp add: re_spaces_def)

lemma replace_spaces_id: "\<forall>c \<in> set s. \<not> is_space c \<Longrightarrow> replace_all re_spaces r s = s"
  by (induction s) (simp_all add: re_spaces_None)

lemma re_blank_lines_None: "c \<noteq> 0x0A \<Longrightarrow> re_blank_lines (c # cs) = None"
  by (simp add: re_blank_lines_def)

lemma replace_blank_lines_id: "0x0A \<notin> set s \<Longrightarrow> replace_all re_blank_lines r s = s"
  by (induction s) (simp_all add: re_blank_lines_None)

lemma dropWhile_none: "\<forall>c \<in> set s. \<not> P c \<Longrightarrow> dropWhile P s = s"
  by (cases s) simp_all

lemma trim_no_space: "\<forall>c \<in> set s. \<not> is_space c \<Longrightarrow> trim s = s"
  by (simp add: trim_def dropWhile_none)

lemma is_space_newline: "is_space 0x0A"
  by (simp add: is_space_def)

lemma clean_whitespace_no_space:
  assumes "\<forall>c \<in> set s. \<not> is_space c"
  shows "clean_whitespace s = s"
proof -
  from assms have "0x0A \<notin> set s"
    using is_space_newline by blast
  with assms show ?thesis
    by (simp add: clean_whitespace_def replace_spaces_id replace_blank_lines_id trim_no_space)
qed

lemma startsWith_Cons: "startsWith (c # cs) (p # ps) \<longleftrightarrow> c = p \<and> startsWith cs ps"
  by (simp add: startsWith_def)

lemma decode_refs_id: "0x26 \<notin> set s \<Longrightarrow> decode_refs s = s"
  by (induction s) (auto simp: js_def startsWith_Cons)


section \<open>The example run\<close>

lemma long_text_plain: "\<forall>c \<in> set long_text. \<not> is_space c" "0x26 \<notin> set long_text"
  by (simp_all add: long_text_def is_space_def)

lemma clean_long_text: "cleanArticleContent example_env long_text = long_text"
  by (simp add: cleanArticleContent_def html_text_def example_env_def plain_text_load_def
      unwanted_def decode_refs_id long_text_plain clean_whitespace_no_space)

lemma article_page_data:
  "data_title (pageArticleData article_page) = js ''Chatbots''"
  "data_content (pageArticleData article_page) = long_text"
  by (simp_all add: pageArticleData_def article_page_def titleSelectors_def contentSelectors_def
      querySelector_def or_else_def trim_def js_def is_space_def long_text_def)

lemma goto_example_url: "goto example_env example_url = Some article_page"
  by (simp add: example_env_def example_url_def baseUrl_def js_def)

lemma example_scrape_article:
  "scrapeArticleContent example_env \<lparr>browser = b\<rparr> example_url =
     (Some example_article, \<lparr>browser = Some Browser\<rparr>)"
proof -
  have v: "validated example_env example_url (pageArticleData article_page) = Some example_article"
    by (simp add: validated_def article_page_data clean_long_text Let_def example_article_def)
       (simp add: js_def long_text_def)
  have l: "launch_ok example_env" "\<not> evaluate_fails article_page"
    by (simp_all add: example_env_def article_page_def)
  have u: "x = Browser" for x :: Browser
    by (cases x) simp
  show ?thesis
    by (cases b) (simp_all add: scrapeArticleContent_def initBrowser_def goto_example_url v l u)
qed


section \<open>The article extractor\<close>

lemma or_else_nonempty: "b \<noteq> [] \<Longrightarrow> or_else a b \<noteq> []"
  by (simp add: or_else_def)

lemma title_nonempty: "data_title (pageArticleData p) \<noteq> []"
  by (simp add: pageArticleData_def or_else_nonempty js_def)

lemma validated_Some:
  "validated e u ad = Some c \<Longrightarrow>
     data_title ad \<noteq> [] \<and> data_content ad \<noteq> [] \<and>
     content c = cleanArticleContent e (data_content ad) \<and> 100 \<le> length (content c) \<and>
     title c = take 500 (data_title ad) \<and> url c = u"
  by (auto simp: validated_def Let_def split: if_splits)

lemma validated_None:
  "validated e u ad = None \<longleftrightarrow>
     data_title ad = [] \<or> data_content ad = [] \<or>
     length (cleanArticleContent e (data_content ad)) < 100"
  by (auto simp: validated_def Let_def split: if_splits)

lemma scrape_fst:
  "fst (scrapeArticleContent e svc u) =
     (if launch_ok e \<or> browser svc \<noteq> None then
        (case goto e u of
           None \<Rightarrow> None
         | Some p \<Rightarrow> if evaluate_fails p then None else validated e u (pageArticleData p))
      else None)"
  by (auto simp: scrapeArticleContent_def initBrowser_def split: option.splits)

lemma blank_scrape: "fst (scrapeArticleContent blank_env svc0 baseUrl) = None"
  by (simp add: scrape_fst blank_env_def blank_page_def no_fail_def validated_None
      pageArticleData_def contentSelectors_def querySelector_def or_else_def)

text \<open>
  C2. The extractor returns a candidate only for a page whose extracted title is not empty
  and whose cleaned content has at least 100 code units, and the candidate carries that
  cleaned content; for a page whose title or raw content is empty, or whose cleaned content
  is shorter than 100, it returns no result.
\<close>

theorem extractor_quality_gate:
  "(fst (scrapeArticleContent e svc u) = Some c \<longrightarrow>
      (\<exists>p. goto e u = Some p \<and> data_title (pageArticleData p) \<noteq> [] \<and>
           content c = cleanArticleContent e (data_content (pageArticleData p)) \<and>
           100 \<le> length (content c)))
   \<and> (goto e u = Some p \<and>
        (data_title (pageArticleData p) = [] \<or> data_content (pageArticleData p) = [] \<or>
         length (cleanArticleContent e (data_content (pageArticleData p))) < 100)
      \<longrightarrow> fst (scrapeArticleContent e svc u) = None)"
  by (auto simp: scrape_fst validated_None split: option.splits if_splits dest: validated_Some)

theorem extractor_quality_gate_witness:
  "fst (scrapeArticleContent example_env svc0 example_url) = Some example_article
   \<and> 100 \<le> length (content example_article)
   \<and> goto blank_env baseUrl = Some blank_page
   \<and> data_content (pageArticleData blank_page) = []
   \<and> fst (scrapeArticleContent blank_env svc0 baseUrl) = None"
proof -
  have a: "fst (scrapeArticleContent example_env svc0 example_url) = Some example_article"
    by (simp add: svc0_def example_scrape_article)
  have b: "goto blank_env baseUrl = Some blank_page"
    by (simp add: blank_env_def)
  have c: "data_content (pageArticleData blank_page) = []"
    by (simp add: pageArticleData_def blank_page_def contentSelectors_def querySelector_def
        or_else_def)
  from a extractor_quality_gate [of example_env svc0 example_url example_article]
  have "100 \<le> length (content example_article)"
    by blast
  moreover from b c extractor_quality_gate [of blank_env svc0 baseUrl _ blank_page]
  have "fst (scrapeArticleContent blank_env svc0 baseUrl) = None"
    by blast
  ultimately show ?thesis
    using a b c by simp
qed

lemma titleCascade_none:
  "\<forall>selector \<in> set sels. \<forall>el. querySelector p selector = Some el \<longrightarrow> trim (textContent el) = []
   \<Longrightarrow> titleCascade p t sels = t"
  by (induction sels) (auto split: option.splits)

text \<open>
  C9. The title of the extracted data is never empty: when no title selector gives text, it
  is the document title, and when that is empty too, the string "Untitled". So the
  validation step rejects exactly the pages with empty raw content, and the title of every
  candidate is not empty and has at most 500 code units.
\<close>

theorem title_never_empty:
  "data_title (pageArticleData p) \<noteq> []
   \<and> ((\<forall>selector \<in> set titleSelectors. \<forall>el. querySelector p selector = Some el
          \<longrightarrow> trim (textContent el) = [])
        \<longrightarrow> data_title (pageArticleData p) =
              (if documentTitle p \<noteq> [] then documentTitle p else js ''Untitled''))
   \<and> ((data_title (pageArticleData p) = [] \<or> data_content (pageArticleData p) = [])
        \<longleftrightarrow> data_content (pageArticleData p) = [])
   \<and> (fst (scrapeArticleContent e svc u) = Some c \<longrightarrow> title c \<noteq> [] \<and> length (title c) \<le> 500)"
proof -
  have "title c \<noteq> [] \<and> length (title c) \<le> 500" if "fst (scrapeArticleContent e svc u) = Some c"
  proof -
    from that obtain q where "validated e u (pageArticleData q) = Some c"
      by (auto simp: scrape_fst split: option.splits if_splits)
    then have "title c = take 500 (data_title (pageArticleData q))"
      by (simp add: validated_Some)
    then show ?thesis
      using title_nonempty [of q] by simp
  qed
  moreover have "data_title (pageArticleData p) =
      (if documentTitle p \<noteq> [] then documentTitle p else js ''Untitled'')"
    if "\<forall>selector \<in> set titleSelectors. \<forall>el. querySelector p selector = Some el
          \<longrightarrow> trim (textContent el) = []"
    using titleCascade_none [OF that, of "[]"] by (simp add: pageArticleData_def or_else_def)
  ultimately show ?thesis
    using title_nonempty [of p] by blast
qed

theorem title_never_empty_witness:
  "filter (\<lambda>selector. querySelector blank_page selector \<noteq> None) titleSelectors = []
   \<and> data_title (pageArticleData blank_page) = js ''Untitled''
   \<and> fst (scrapeArticleContent example_env svc0 example_url) = Some example_article
   \<and> title example_article \<noteq> [] \<and> length (title example_article) \<le> 500"
proof -
  have a: "\<forall>selector \<in> set titleSelectors. \<forall>el. querySelector blank_page selector = Some el
      \<longrightarrow> trim (textContent el) = []"
    by (simp add: querySelector_def blank_page_def)
  have b: "fst (scrapeArticleContent example_env svc0 example_url) = Some example_article"
    by (simp add: svc0_def example_scrape_article)
  have c: "documentTitle blank_page = []"
    by (simp add: blank_page_def)
  have d: "filter (\<lambda>selector. querySelector blank_page selector \<noteq> None) titleSelectors = []"
    by (simp add: querySelector_def blank_page_def)
  from a b c d title_never_empty [of blank_page example_env svc0 example_url example_article]
  show ?thesis
    by simp
qed


section \<open>The browser session\<close>

lemma blank_links: "extractArticleLinks blank_page = []"
  by (simp add: extractArticleLinks_def articleSelectors_def blank_page_def no_fail_def
      foundLinks_def new_Set_def)

lemma blank_last: "findLastPage e blank_page = None"
  by (simp add: findLastPage_def paginationSelectors_def blank_page_def no_fail_def
      querySelector_def pageNumbers_def numberedLinks_def)

lemma blank_scrapeOldest:
  "scrapeOldestArticles blank_env svc0 = (Inr [], \<lparr>browser = Some Browser\<rparr>)"
  by (simp add: scrapeOldestArticles_def initBrowser_def svc0_def blank_last blank_links)
     (simp add: blank_env_def blank_last blank_links)


lemma closeBrowser_idempotent: "closeBrowser (closeBrowser svc) = closeBrowser svc"
  by (simp add: closeBrowser_def)

lemma closeBrowser_closed: "browser svc = None \<Longrightarrow> closeBrowser svc = svc"
  by (simp add: closeBrowser_def)

lemma browser_closeBrowser: "browser (closeBrowser svc) = None"
  by (simp add: closeBrowser_def)

lemma controller_closes_unless_404:
  "status (fst (controller_scrapeOldestArticles e repo svc d)) \<noteq> 404 \<Longrightarrow>
     browser (fst (snd (controller_scrapeOldestArticles e repo svc d))) = None"
  by (auto simp: controller_scrapeOldestArticles_def browser_closeBrowser
      split: prod.splits sum.splits if_splits)

text \<open>
  C3. The claim: on every exit path of a run the browser session is closed before the run
  returns, and closing is a no-op on a closed session. The controller closes the session
  when it answers 200 and when it answers 500, and closing twice is closing once (the
  lemmas above). When the scraper finds no article, the controller answers 404 and
  returns with the session still open: here for a listing page without any link.
\<close>

theorem controller_404_leaves_browser_open:
  "controller_scrapeOldestArticles blank_env articleRepository svc0 empty_db =
     (Response 404 False None, \<lparr>browser = Some Browser\<rparr>, empty_db)"
  by (simp add: controller_scrapeOldestArticles_def blank_scrapeOldest)


section \<open>The counts of a run\<close>

lemma listing_links: "extractArticleLinks listing_page = [example_url]"
  by (simp add: extractArticleLinks_def articleSelectors_def listing_page_def no_fail_def
      foundLinks_def site_link_def new_Set_def getAttribute_def startsWith_def example_url_def
      js_def)

lemma listing_last: "findLastPage e listing_page = None"
  by (simp add: findLastPage_def paginationSelectors_def listing_page_def no_fail_def
      querySelector_def pageNumbers_def numberedLinks_def)

lemma example_scrapeOldest:
  "scrapeOldestArticles example_env svc0 = (Inr [example_article], \<lparr>browser = Some Browser\<rparr>)"
proof -
  have g: "goto example_env baseUrl = Some listing_page" "launch_ok example_env"
    by (simp_all add: example_env_def)
  show ?thesis
    by (simp add: scrapeOldestArticles_def initBrowser_def svc0_def g listing_last listing_links
        example_scrape_article)
qed


lemma storeArticles_counts:
  "storeArticles repo d ds sv er = (sv', er', d') \<Longrightarrow>
     length sv' + length er' = length sv + length er + length ds"
  by (induction ds arbitrary: d sv er)
     (auto split: sum.splits option.splits prod.splits)

lemma saveArticles_counts:
  "saveArticles repo d ds a b c = ((a', b', c'), d') \<Longrightarrow> a' + b' + c' = a + b + c + length ds"
  by (induction ds arbitrary: d a b c)
     (auto split: sum.splits option.splits prod.splits)

lemma store_save_agree:
  "storeArticles repo d ds sv er = (sv', er', d') \<Longrightarrow>
   saveArticles repo d ds a b c = ((a', b', c'), d2) \<Longrightarrow>
     d2 = d' \<and> length sv' + a + b = length sv + a' + b' \<and> length er' + c = length er + c'"
proof (induction ds arbitrary: d sv er a b c)
  case Nil
  then show ?case by simp
next
  case (Cons x ds)
  from Cons.prems show ?case
    by (auto split: sum.splits option.splits prod.splits dest!: Cons.IH)
qed


text \<open>
  C1, as amended. In every run that ends with a summary, each scraped candidate is counted
  once. The script counts saved, skipped and failed candidates apart, and their sum is the
  number scraped. The controller reports two counts, whose sum is the number scraped: its
  \<open>saved\<close> counts the created articles together with those that existed already, its
  \<open>errors\<close> the failures.
\<close>

theorem run_counts:
  "(fst (script_main e repo svc d) = Return (Some s) \<longrightarrow>
      found s = savedCount s + skippedCount s + errorCount s)
   \<and> (fst (controller_scrapeOldestArticles e repo svc d) = Response 200 True (Some r) \<longrightarrow>
        scraped r = saved r + errors r \<and>
        (\<exists>t. fst (script_main e repo svc d) = Return (Some t) \<and> scraped r = found t \<and>
             saved r = savedCount t + skippedCount t \<and> errors r = errorCount t))"
proof -
  obtain res svc1 where sc: "scrapeOldestArticles e svc = (res, svc1)"
    by (cases "scrapeOldestArticles e svc")
  show ?thesis
  proof (cases res)
    case (Inl err)
    with sc show ?thesis
      by (simp add: script_main_def controller_scrapeOldestArticles_def)
  next
    case (Inr ds)
    obtain sv er d1 where st: "storeArticles repo d ds [] [] = (sv, er, d1)"
      by (cases "storeArticles repo d ds [] []") auto
    obtain a b c d2 where sa: "saveArticles repo d ds 0 0 0 = ((a, b, c), d2)"
      by (cases "saveArticles repo d ds 0 0 0") auto
    from storeArticles_counts [OF st] saveArticles_counts [OF sa] store_save_agree [OF st sa]
    have "length sv + length er = length ds" "a + b + c = length ds"
      "length sv = a + b" "length er = c"
      by simp_all
    with sc Inr st sa show ?thesis
      by (auto simp: script_main_def controller_scrapeOldestArticles_def split: if_splits)
  qed
qed


theorem run_counts_witness:
  "fst (script_main example_env articleRepository svc0 stored_db) =
     Return (Some \<lparr>found = 1, savedCount = 0, skippedCount = 1, errorCount = 0\<rparr>)
   \<and> found \<lparr>found = 1, savedCount = 0, skippedCount = 1, errorCount = 0\<rparr> = 0 + 1 + 0
   \<and> map_option scraped (data (fst (controller_scrapeOldestArticles example_env
        articleRepository svc0 stored_db))) = Some (1 + 0)"
proof -
  have u: "url example_article = example_url"
    by (simp add: example_article_def)
  have f: "findByUrl stored_db example_url = Inr (Some (mapRowToArticle (hd (articles stored_db))))"
    by (simp add: findByUrl_def stored_db_def)
  have a: "fst (script_main example_env articleRepository svc0 stored_db) =
     Return (Some \<lparr>found = 1, savedCount = 0, skippedCount = 1, errorCount = 0\<rparr>)"
    by (simp add: script_main_def example_scrapeOldest articleRepository_def f u)
  have b: "fst (controller_scrapeOldestArticles example_env articleRepository svc0 stored_db) =
     Response 200 True
       (Some \<lparr>scraped = 1, saved = 1, errors = 0,
              saved_articles = [mapRowToArticle (hd (articles stored_db))], errorDetails = []\<rparr>)"
    by (simp add: controller_scrapeOldestArticles_def example_scrapeOldest
        articleRepository_def f u)
  from a b run_counts [of example_env articleRepository svc0 stored_db
      "\<lparr>found = 1, savedCount = 0, skippedCount = 1, errorCount = 0\<rparr>"
      "\<lparr>scraped = 1, saved = 1, errors = 0,
        saved_articles = [mapRowToArticle (hd (articles stored_db))], errorDetails = []\<rparr>"]
  show ?thesis
    by simp
qed

text \<open>
  C1, as stated, fails on the controller: for a run whose one candidate is in the store
  already, it reports 1 scraped, 1 saved and 0 errors, while 1 candidate was skipped as a
  duplicate (the script's count for the same run).
\<close>

lemma find_stored: "findByUrl stored_db example_url = Inr (Some (mapRowToArticle (hd (articles stored_db))))"
  by (simp add: findByUrl_def stored_db_def)

theorem reported_saved_includes_duplicates:
  "fst (controller_scrapeOldestArticles example_env articleRepository svc0 stored_db) =
     Response 200 True
       (Some \<lparr>scraped = 1, saved = 1, errors = 0,
              saved_articles = [mapRowToArticle (hd (articles stored_db))], errorDetails = []\<rparr>)
   \<and> fst (script_main example_env articleRepository svc0 stored_db) =
       Return (Some \<lparr>found = 1, savedCount = 0, skippedCount = 1, errorCount = 0\<rparr>)
   \<and> (1::nat) \<noteq> 1 + 1 + 0"
proof -
  have u: "url example_article = example_url"
    by (simp add: example_article_def)
  show ?thesis
    by (simp add: controller_scrapeOldestArticles_def script_main_def example_scrapeOldest
        articleRepository_def find_stored u)
qed


section \<open>The store\<close>

lemma distinct_filter_one:
  "distinct xs \<Longrightarrow> x \<in> set xs \<Longrightarrow> length (filter (\<lambda>y. y = x) xs) = 1"
  by (induction xs) (auto simp: filter_empty_conv)

lemma create_duplicate:
  "\<exists>r \<in> set (articles d). row_url r = url cand \<Longrightarrow> create d cand = (Inl ER_DUP_ENTRY, d)"
  by (simp add: create_def insert_article_def Let_def)

lemma create_inserts:
  assumes "\<forall>r \<in> set (articles d). row_url r \<noteq> url cand"
  shows "\<exists>row. articles (snd (create d cand)) = articles d @ [row]
           \<and> row_url row = url cand \<and> row_title row = trim (title cand)
           \<and> row_content row = sanitizeArticleContent (content cand)
           \<and> word_count row = calculateWordCount (sanitizeArticleContent (content cand))
           \<and> reading_time row = calculateReadingTime (word_count row)
           \<and> row_id row = (if auto_increment d then AutoId (next_key d) else Uuid (next_key d))"
  using assms
  by (auto simp: create_def insert_article_def Let_def split: option.splits)

lemma create_keeps_or_appends:
  "articles (snd (create d cand)) = articles d \<or>
   (\<exists>row. articles (snd (create d cand)) = articles d @ [row] \<and> row_url row = url cand
       \<and> (\<forall>r \<in> set (articles d). row_url r \<noteq> url cand))"
proof (cases "\<exists>r \<in> set (articles d). row_url r = url cand")
  case True
  then show ?thesis by (simp add: create_duplicate)
next
  case False
  then have "\<forall>r \<in> set (articles d). row_url r \<noteq> url cand" by blast
  from create_inserts [OF this] this show ?thesis by blast
qed

lemma one_row_after_create:
  assumes "unique_urls d"
  shows "length (filter (\<lambda>r. row_url r = url cand) (articles (snd (create d cand)))) = 1
         \<and> unique_urls (snd (create d cand))"
proof (cases "\<exists>r \<in> set (articles d). row_url r = url cand")
  case True
  then have "url cand \<in> set (map row_url (articles d))" by force
  with assms distinct_filter_one [of "map row_url (articles d)" "url cand"]
  have "length (filter (\<lambda>r. row_url r = url cand) (articles d)) = 1"
    by (simp add: unique_urls_def filter_map comp_def)
  with True assms show ?thesis by (simp add: create_duplicate)
next
  case False
  then have n: "\<forall>r \<in> set (articles d). row_url r \<noteq> url cand" by blast
  from create_inserts [OF n] obtain row where
    r: "articles (snd (create d cand)) = articles d @ [row]" "row_url row = url cand"
    by blast
  from n have "filter (\<lambda>r. row_url r = url cand) (articles d) = []"
    by (simp add: filter_empty_conv)
  with r n assms show ?thesis
    by (auto simp: unique_urls_def)
qed


lemma find_existing:
  "\<exists>r \<in> set (articles d). row_url r = u \<Longrightarrow>
     \<exists>existing. findByUrl d u = Inr (Some existing) \<and> article_url existing = u"
proof -
  assume "\<exists>r \<in> set (articles d). row_url r = u"
  then have "filter (\<lambda>r. row_url r = u) (articles d) \<noteq> []"
    by (simp add: filter_empty_conv)
  then obtain r rs where f: "filter (\<lambda>r. row_url r = u) (articles d) = r # rs"
    by (cases "filter (\<lambda>r. row_url r = u) (articles d)") auto
  then have "r \<in> set (filter (\<lambda>r. row_url r = u) (articles d))"
    by simp
  then have "row_url r = u" by simp
  with f show ?thesis
    by (simp add: findByUrl_def mapRowToArticle_def)
qed


text \<open>
  C5, as amended. When \<open>create\<close> has been invoked for a URL on a store with unique URLs,
  the store holds exactly one row of that URL; a second invocation for the URL fails with
  the duplicate-key error and leaves the store as it is. An orchestrator that comes to the
  URL again finds the row by its lookup, reports the article as existing and does not
  invoke \<open>create\<close>. When an orchestrator does invoke \<open>create\<close> and it fails, the
  failure is recorded as an error.
\<close>

theorem second_create_duplicate_error:
  assumes "unique_urls d" and "url second = url first"
  shows "length (filter (\<lambda>r. row_url r = url first) (articles (snd (create d first)))) = 1
     \<and> create (snd (create d first)) second = (Inl ER_DUP_ENTRY, snd (create d first))
     \<and> (\<exists>existing. article_url existing = url first
           \<and> storeArticles articleRepository (snd (create d first)) [second] [] [] =
               ([existing], [], snd (create d first)))
     \<and> saveArticles articleRepository (snd (create d first)) [second] 0 0 0 =
         ((0, 1, 0), snd (create d first))
     \<and> (repo_findByUrl repo d0 (url second) = Inr None \<and> repo_create repo d0 second = (Inl err, d1)
          \<longrightarrow> storeArticles repo d0 [second] [] [] =
                ([], [\<lparr>err_title = title second, err_url = url second, err_error = err\<rparr>], d1)
              \<and> saveArticles repo d0 [second] 0 0 0 = ((0, 0, 1), d1))"
proof -
  let ?d = "snd (create d first)"
  from one_row_after_create [OF assms(1), of first]
  have one: "length (filter (\<lambda>r. row_url r = url first) (articles ?d)) = 1"
    by simp
  then have "filter (\<lambda>r. row_url r = url first) (articles ?d) \<noteq> []"
    by auto
  then have ex: "\<exists>r \<in> set (articles ?d). row_url r = url second"
    using assms(2) by (auto simp: filter_empty_conv)
  from find_existing [OF ex] obtain existing where
    e: "findByUrl ?d (url second) = Inr (Some existing)" "article_url existing = url second"
    by blast
  from one create_duplicate [OF ex] e assms(2) show ?thesis
    by (auto simp: articleRepository_def)
qed


theorem second_create_duplicate_error_witness:
  "unique_urls stored_db
   \<and> create (snd (create stored_db short_candidate)) short_candidate =
       (Inl ER_DUP_ENTRY, snd (create stored_db short_candidate))
   \<and> length (filter (\<lambda>r. row_url r = example_url)
        (articles (snd (create stored_db short_candidate)))) = 1
   \<and> saveArticles stale_repository stored_db [short_candidate] 0 0 0 = ((0, 0, 1), stored_db)"
proof -
  have u: "unique_urls stored_db"
    by (simp add: unique_urls_def stored_db_def)
  have e: "\<exists>r \<in> set (articles stored_db). row_url r = url short_candidate"
    by (simp add: stored_db_def short_candidate_def)
  have f: "repo_findByUrl stale_repository stored_db (url short_candidate) = Inr None"
    "repo_create stale_repository stored_db short_candidate = (Inl ER_DUP_ENTRY, stored_db)"
    by (simp_all add: stale_repository_def create_duplicate [OF e])
  have x: "url short_candidate = example_url"
    by (simp add: short_candidate_def)
  from u f x
    second_create_duplicate_error [of stored_db short_candidate short_candidate
      stale_repository stored_db ER_DUP_ENTRY stored_db]
  show ?thesis
    by simp
qed

text \<open>
  C5, as stated, fails: the duplicate-key error of a second \<open>create\<close> is not treated as
  "already exists". An orchestrator whose lookup missed the row invokes \<open>create\<close>, gets
  the error, and records it among the errors; nothing is counted as skipped.
\<close>

theorem duplicate_error_recorded_as_error:
  "create stored_db short_candidate = (Inl ER_DUP_ENTRY, stored_db)
   \<and> storeArticles stale_repository stored_db [short_candidate] [] [] =
       ([], [\<lparr>err_title = title short_candidate, err_url = example_url, err_error = ER_DUP_ENTRY\<rparr>],
        stored_db)
   \<and> saveArticles stale_repository stored_db [short_candidate] 0 0 0 = ((0, 0, 1), stored_db)"
proof -
  have "\<exists>r \<in> set (articles stored_db). row_url r = url short_candidate"
    by (simp add: stored_db_def short_candidate_def)
  from create_duplicate [OF this] show ?thesis
    by (simp add: stale_repository_def) (simp add: short_candidate_def)
qed


section \<open>Word count, reading time and the stored content\<close>

lemma sanitize_short:
  "sanitizeArticleContent (content short_candidate) = js ''see  me''"
  by (simp add: sanitizeArticleContent_def short_candidate_def js_def re_block_def re_javascript_def
      re_handler_def ci_prefix_def ascii_upper_def is_word_def is_digit_def trim_def is_space_def Let_def)

lemma wc_short: "calculateWordCount (js ''see  me'') = 2"
  by (simp add: calculateWordCount_def js_def trim_def re_spaces_def is_space_def)

lemma calculateReadingTime_div: "calculateReadingTime n = (n + 199) div 200"
proof -
  have "\<lceil>real n / 200\<rceil> = - (- int n div 200)"
    using ceiling_divide_eq_div [of "int n" 200] by simp
  then show ?thesis
    by (simp add: calculateReadingTime_def)
qed


lemma rt_2: "calculateReadingTime 2 = 1"
  by (simp add: calculateReadingTime_div)

lemma split_spaces_space:
  "is_space c \<Longrightarrow>
     split_re re_spaces cur (c # cs) = cur # split_re re_spaces [] (dropWhile is_space cs)"
  by (simp add: re_spaces_def dropWhile_eq_drop)

lemma split_spaces_other:
  "\<not> is_space c \<Longrightarrow> split_re re_spaces cur (c # cs) = split_re re_spaces (cur @ [c]) cs"
  by (simp add: re_spaces_def)

lemma words_of_spaces: "\<forall>c \<in> set t. is_space c \<Longrightarrow> words_of t = []"
  by (induction t) simp_all

lemma words_of_dropWhile: "words_of (dropWhile is_space s) = words_of s"
  by (induction s) simp_all

lemma words_of_word:
  assumes "\<forall>c \<in> set w. \<not> is_space c" and "s = [] \<or> is_space (hd s)"
  shows "words_of (w @ s) = (if w = [] then [] else [w]) @ words_of s"
proof (cases w)
  case Nil
  then show ?thesis by simp
next
  case (Cons c w')
  from assms(2) have t: "takeWhile (\<lambda>x. \<not> is_space x) s = []"
    and d: "dropWhile (\<lambda>x. \<not> is_space x) s = s"
    by (cases s; simp)+
  from assms(1) Cons have "\<forall>x \<in> set w'. \<not> is_space x" "\<not> is_space c"
    by simp_all
  then show ?thesis
    using Cons t d by (simp add: takeWhile_append2 dropWhile_append2)
qed

lemma split_words:
  "\<forall>c \<in> set cur. \<not> is_space c \<Longrightarrow>
     filter (\<lambda>w. length w > 0) (split_re re_spaces cur s) = words_of (cur @ s)"
proof (induction s arbitrary: cur rule: length_induct)
  case (1 s)
  show ?case
  proof (cases s)
    case Nil
    with words_of_word [OF "1.prems", of "[]"] show ?thesis
      by simp
  next
    case (Cons c cs)
    show ?thesis
    proof (cases "is_space c")
      case True
      have "length (dropWhile is_space cs) < length s"
        using Cons by (simp add: less_Suc_eq_le length_dropWhile_le)
      with "1.IH" have "filter (\<lambda>w. length w > 0) (split_re re_spaces [] (dropWhile is_space cs))
          = words_of (dropWhile is_space cs)"
        by force
      moreover have "words_of (cur @ c # cs) = (if cur = [] then [] else [cur]) @ words_of cs"
        using words_of_word [OF "1.prems", of "c # cs"] True by simp
      moreover have "split_re re_spaces cur s =
          cur # split_re re_spaces [] (dropWhile is_space cs)"
        unfolding Cons by (rule split_spaces_space [OF True])
      ultimately show ?thesis
        by (simp add: Cons words_of_dropWhile del: split_re.simps)
    next
      case False
      with "1.prems" have "\<forall>x \<in> set (cur @ [c]). \<not> is_space x"
        by simp
      with "1.IH" Cons have "filter (\<lambda>w. length w > 0) (split_re re_spaces (cur @ [c]) cs)
          = words_of ((cur @ [c]) @ cs)"
        by force
      moreover have "split_re re_spaces cur s = split_re re_spaces (cur @ [c]) cs"
        unfolding Cons by (rule split_spaces_other [OF False])
      ultimately show ?thesis
        by (simp add: Cons del: split_re.simps)
    qed
  qed
qed

lemma takeWhile_all: "\<forall>x \<in> set xs. P x \<Longrightarrow> takeWhile P xs = xs"
  by simp

lemma dropWhile_all: "\<forall>x \<in> set xs. P x \<Longrightarrow> dropWhile P xs = []"
  by simp

lemma words_of_append_spaces:
  "\<forall>c \<in> set t. is_space c \<Longrightarrow> words_of (s @ t) = words_of s"
proof (induction s rule: words_of.induct)
  case 1
  then show ?case by (simp add: words_of_spaces)
next
  case (2 c cs)
  show ?case
  proof (cases "is_space c")
    case True
    with 2 show ?thesis by simp
  next
    case False
    show ?thesis
    proof (cases "\<forall>x \<in> set cs. \<not> is_space x")
      case True
      have "t = [] \<or> is_space (hd t)"
        using "2.prems" by (cases t) simp_all
      then have "takeWhile (\<lambda>x. \<not> is_space x) t = []" "dropWhile (\<lambda>x. \<not> is_space x) t = t"
        by (cases t; simp)+
      then show ?thesis
        using True False "2.prems"
        by (simp add: words_of_spaces takeWhile_all dropWhile_all)
    next
      case n: False
      then obtain x where "x \<in> set cs" "\<not> (\<lambda>x. \<not> is_space x) x"
        by blast
      then have "takeWhile (\<lambda>x. \<not> is_space x) (cs @ t) = takeWhile (\<lambda>x. \<not> is_space x) cs"
        "dropWhile (\<lambda>x. \<not> is_space x) (cs @ t) = dropWhile (\<lambda>x. \<not> is_space x) cs @ t"
        by (simp_all add: takeWhile_append1 dropWhile_append1)
      with False "2.IH"(2) "2.prems" show ?thesis
        by simp
    qed
  qed
qed

lemma words_of_trim: "words_of (trim s) = words_of s"
proof -
  let ?d = "dropWhile is_space s"
  have "rev (takeWhile is_space (rev ?d) @ dropWhile is_space (rev ?d)) = rev (rev ?d)"
    by (simp only: takeWhile_dropWhile_id)
  then have "rev (dropWhile is_space (rev ?d)) @ rev (takeWhile is_space (rev ?d)) = ?d"
    by (simp only: rev_append rev_rev_ident)
  then have "?d = trim s @ rev (takeWhile is_space (rev ?d))"
    by (simp only: trim_def)
  moreover have "\<forall>c \<in> set (rev (takeWhile is_space (rev ?d))). is_space c"
    by (auto dest: set_takeWhileD)
  ultimately have "words_of ?d = words_of (trim s)"
    using words_of_append_spaces by metis
  then show ?thesis
    by (simp add: words_of_dropWhile)
qed

lemma calculateWordCount_words: "calculateWordCount s = length (words_of s)"
  using split_words [of "[]" "trim s"] by (simp add: calculateWordCount_def words_of_trim)


lemma create_returns:
  assumes "fresh_keys d" and "fst (create d cand) = Inr a"
  shows "\<exists>row. articles (snd (create d cand)) = articles d @ [row] \<and> a = mapRowToArticle row
           \<and> (\<forall>r \<in> set (articles d). row_url r \<noteq> url cand)"
proof -
  have n: "\<forall>r \<in> set (articles d). row_url r \<noteq> url cand"
  proof (rule ccontr)
    assume "\<not> ?thesis"
    then have "\<exists>r \<in> set (articles d). row_url r = url cand" by blast
    from create_duplicate [OF this] assms(2) show False by simp
  qed
  from assms(1) have "filter (\<lambda>r. row_id r = AutoId (next_key d)) (articles d) = []"
    by (auto simp: fresh_keys_def filter_empty_conv)
  with n assms(2) show ?thesis
    by (auto simp: create_def insert_article_def Let_def findById_def split: if_splits)
qed

lemma create_short:
  "create empty_db short_candidate =
     (Inr (mapRowToArticle short_row),
      \<lparr>articles = [short_row], auto_increment = True, next_key = 2\<rparr>)"
proof -
  have "title short_candidate = js '' Hi ''" "url short_candidate = example_url"
    "tags short_candidate = None"
    by (simp_all add: short_candidate_def)
  moreover have "trim (js '' Hi '') = js ''Hi''"
    by (simp add: trim_def js_def is_space_def)
  ultimately show ?thesis
    by (simp add: create_def insert_article_def empty_db_def sanitize_short wc_short rt_2
        findById_def short_row_def Let_def)
qed

lemma fresh_empty_db: "fresh_keys empty_db"
  by (simp add: fresh_keys_def empty_db_def)


text \<open>
  C4. The word count of a string is the number of its white-space separated non-empty
  words, and the reading time of a count is the count divided by 200 and rounded up: the
  least number of 200-word minutes that hold the count. Both are 0 for the empty string
  and for a string of white space only. Every row that \<open>create\<close> inserts carries these
  two values of its stored content, and so does the article that \<open>create\<close> returns.
\<close>

theorem word_count_and_reading_time:
  "calculateWordCount s = length (words_of s)
   \<and> calculateReadingTime n = nat \<lceil>real n / 200\<rceil>
   \<and> (n \<le> 200 * calculateReadingTime n \<and> (\<forall>k. n \<le> 200 * k \<longrightarrow> calculateReadingTime n \<le> k))
   \<and> ((\<forall>c \<in> set s. is_space c) \<longrightarrow>
         calculateWordCount s = 0 \<and> calculateReadingTime (calculateWordCount s) = 0)
   \<and> (\<forall>row \<in> set (articles (snd (create d cand))). row \<notin> set (articles d) \<longrightarrow>
         word_count row = length (words_of (row_content row)) \<and>
         reading_time row = nat \<lceil>real (word_count row) / 200\<rceil>)
   \<and> (fresh_keys d \<and> fst (create d cand) = Inr a \<longrightarrow>
         wordCount a = length (words_of (article_content a)) \<and>
         readingTime a = nat \<lceil>real (wordCount a) / 200\<rceil>)"
proof -
  have rows: "word_count row = length (words_of (row_content row)) \<and>
      reading_time row = nat \<lceil>real (word_count row) / 200\<rceil>"
    if "row \<in> set (articles (snd (create d cand)))" "row \<notin> set (articles d)" for row
  proof (cases "\<exists>r \<in> set (articles d). row_url r = url cand")
    case True
    with that show ?thesis by (simp add: create_duplicate)
  next
    case False
    then have "\<forall>r \<in> set (articles d). row_url r \<noteq> url cand" by blast
    from create_inserts [OF this] that show ?thesis
      by (auto simp: calculateWordCount_words calculateReadingTime_def)
  qed
  have ret: "wordCount a = length (words_of (article_content a)) \<and>
      readingTime a = nat \<lceil>real (wordCount a) / 200\<rceil>"
    if "fresh_keys d" "fst (create d cand) = Inr a"
  proof -
    from create_returns [OF that] obtain row where
      r: "articles (snd (create d cand)) = articles d @ [row]" "a = mapRowToArticle row"
        "\<forall>r \<in> set (articles d). row_url r \<noteq> url cand"
      by blast
    then have "row \<notin> set (articles d)"
      using create_inserts [OF r(3)] by auto
    with rows [of row] r show ?thesis
      by (simp add: mapRowToArticle_def)
  qed
  have "words_of s = []" if "\<forall>c \<in> set s. is_space c"
    using that by (rule words_of_spaces)
  moreover have "n \<le> 200 * calculateReadingTime n"
    "\<forall>k. n \<le> 200 * k \<longrightarrow> calculateReadingTime n \<le> k"
    by (auto simp: calculateReadingTime_div)
  moreover have "calculateReadingTime n = nat \<lceil>real n / 200\<rceil>"
    "calculateReadingTime 0 = 0"
    by (simp_all add: calculateReadingTime_def)
  ultimately show ?thesis
    using rows ret by (auto simp: calculateWordCount_words)
qed


theorem word_count_and_reading_time_witness:
  "calculateWordCount (js ''  '') = 0
   \<and> calculateReadingTime (calculateWordCount (js ''  '')) = 0
   \<and> fresh_keys empty_db
   \<and> fst (create empty_db short_candidate) = Inr (mapRowToArticle short_row)
   \<and> article_content (mapRowToArticle short_row) = js ''see  me''
   \<and> wordCount (mapRowToArticle short_row) = length (words_of (js ''see  me''))
   \<and> wordCount (mapRowToArticle short_row) = 2
   \<and> readingTime (mapRowToArticle short_row) = nat \<lceil>real 2 / 200\<rceil>"
proof -
  have sp: "\<forall>c \<in> set (js ''  ''). is_space c"
    by (simp add: js_def is_space_def)
  have cr: "fst (create empty_db short_candidate) = Inr (mapRowToArticle short_row)"
    by (simp add: create_short)
  have m: "article_content (mapRowToArticle short_row) = js ''see  me''"
    "wordCount (mapRowToArticle short_row) = 2"
    by (simp_all add: mapRowToArticle_def short_row_def)
  note t = word_count_and_reading_time [of "js ''  ''" 0 empty_db short_candidate "mapRowToArticle short_row"]
  from t sp have a: "calculateWordCount (js ''  '') = 0"
    "calculateReadingTime (calculateWordCount (js ''  '')) = 0"
    by blast+
  from t cr fresh_empty_db
  have b: "wordCount (mapRowToArticle short_row) =
      length (words_of (article_content (mapRowToArticle short_row)))"
    "readingTime (mapRowToArticle short_row) =
      nat \<lceil>real (wordCount (mapRowToArticle short_row)) / 200\<rceil>"
    by blast+
  from b(1) have "wordCount (mapRowToArticle short_row) = length (words_of (js ''see  me''))"
    by (simp only: m(1))
  moreover from b(2) have "readingTime (mapRowToArticle short_row) = nat \<lceil>real 2 / 200\<rceil>"
    by (simp only: m(2))
  ultimately show ?thesis
    using a cr fresh_empty_db m by simp
qed


subsection \<open>What sanitising removes\<close>

lemma replace_all_step: "m (c # t) = None \<Longrightarrow> replace_all m r (c # t) = c # replace_all m r t"
  by simp










lemma ci_prefix_Nil: "ci_prefix [] s"
  by (simp add: ci_prefix_def)










































section \<open>The links of a listing page\<close>

lemma new_Set_foldl:
  "foldl (\<lambda>seen x. if x \<in> set seen then seen else seen @ [x]) acc xs =
     acc @ first_seen (filter (\<lambda>x. x \<notin> set acc) xs)"
proof (induction xs arbitrary: acc)
  case Nil
  then show ?case by simp
next
  case (Cons x xs)
  have "filter (\<lambda>y. y \<noteq> x) (filter (\<lambda>y. y \<notin> set acc) xs) =
      filter (\<lambda>y. y \<notin> set (acc @ [x])) xs"
    by (auto intro: filter_cong)
  with Cons show ?case by simp
qed

lemma new_Set_first_seen: "new_Set xs = first_seen xs"
  by (simp add: new_Set_def new_Set_foldl)

lemma set_first_seen: "set (first_seen xs) = set xs"
  by (induction xs rule: first_seen.induct) auto

lemma distinct_first_seen: "distinct (first_seen xs)"
  by (induction xs rule: first_seen.induct) (auto simp: set_first_seen)

lemma firstLinks_none:
  "\<forall>s \<in> set sels. fails p s \<or> foundLinks p s = [] \<Longrightarrow> firstLinks p sels = []"
  by (induction sels) auto

lemma firstLinks_first:
  "\<forall>s \<in> set pre. fails p s \<or> foundLinks p s = [] \<Longrightarrow> \<not> fails p sel \<Longrightarrow>
   foundLinks p sel \<noteq> [] \<Longrightarrow> firstLinks p (pre @ sel # post) = foundLinks p sel"
  by (induction pre) auto

lemma firstLinks_cases:
  "firstLinks p sels = [] \<or> (\<exists>sel \<in> set sels. \<not> fails p sel \<and> firstLinks p sels = foundLinks p sel)"
  by (induction sels) auto

lemma origin_absolute: "is_absolute_url (js ''https://www.beyondchats.com'' @ href)"
  by (simp add: is_absolute_url_def js_def is_scheme_char_def is_digit_def)

lemma site_link_http: "startsWith (site_link href) (js ''http'')"
  by (simp add: site_link_def startsWith_def js_def)

lemma site_link_absolute:
  "\<not> startsWith href (js ''http'') \<or> is_absolute_url href \<Longrightarrow> is_absolute_url (site_link href)"
  by (auto simp: site_link_def origin_absolute)

lemma foundLinks_shape:
  assumes "l \<in> set (foundLinks p sel)"
  shows "\<exists>href. l = site_link href \<and> href \<noteq> [] \<and> str_includes href (js ''/blog'') \<and>
           (\<exists>el \<in> set (querySelectorAll p sel). getAttribute el ''href'' = Some href)"
proof -
  from assms obtain href where h: "l = site_link href" "href \<noteq> []" "str_includes href (js ''/blog'')"
    "href \<in> set (concat (map (\<lambda>el. case getAttribute el ''href'' of None \<Rightarrow> [] | Some h \<Rightarrow> [h])
        (querySelectorAll p sel)))"
    by (auto simp: foundLinks_def)
  from h(4) obtain el where "el \<in> set (querySelectorAll p sel)" "getAttribute el ''href'' = Some href"
    by (auto split: option.splits)
  with h show ?thesis by blast
qed


text \<open>
  C6, as amended. The link extractor returns the links of one selector only: the first in
  the list whose query does not throw and that yields at least one link with "/blog" in
  it; the duplicates are removed, each link staying at the place of its first occurrence.
  When no selector yields a link, it returns the empty list; it returns a list in every
  case. Each link is made from its \<^verbatim>\<open>href\<close> so: an \<^verbatim>\<open>href\<close> that starts with "http" is
  returned as it is, any other is appended to "https://www.beyondchats.com". Every link so
  starts with "http", and it is an absolute URL whenever the \<^verbatim>\<open>href\<close> is absolute or does
  not start with "http".
\<close>

theorem link_extractor_first_strategy:
  "((\<forall>s \<in> set articleSelectors. fails p s \<or> foundLinks p s = []) \<longrightarrow> extractArticleLinks p = [])
   \<and> (articleSelectors = pre @ sel # post \<and> (\<forall>s \<in> set pre. fails p s \<or> foundLinks p s = [])
        \<and> \<not> fails p sel \<and> foundLinks p sel \<noteq> []
        \<longrightarrow> extractArticleLinks p = first_seen (foundLinks p sel))
   \<and> distinct (extractArticleLinks p)
   \<and> (\<forall>l \<in> set (extractArticleLinks p).
         \<exists>s \<in> set articleSelectors. \<exists>href.
           extractArticleLinks p = first_seen (foundLinks p s) \<and>
           (\<exists>el \<in> set (querySelectorAll p s). getAttribute el ''href'' = Some href) \<and>
           href \<noteq> [] \<and> str_includes href (js ''/blog'') \<and> l = site_link href \<and>
           startsWith l (js ''http'') \<and>
           (\<not> startsWith href (js ''http'') \<or> is_absolute_url href \<longrightarrow> is_absolute_url l))"
proof -
  have a: "extractArticleLinks p = []" if "\<forall>s \<in> set articleSelectors. fails p s \<or> foundLinks p s = []"
    using firstLinks_none [OF that] by (simp add: extractArticleLinks_def new_Set_first_seen)
  have b: "extractArticleLinks p = first_seen (foundLinks p sel)"
    if "articleSelectors = pre @ sel # post" "\<forall>s \<in> set pre. fails p s \<or> foundLinks p s = []"
      "\<not> fails p sel" "foundLinks p sel \<noteq> []"
    using firstLinks_first [OF that(2-4), of post] that(1)
    by (simp add: extractArticleLinks_def new_Set_first_seen)
  have c: "\<exists>s \<in> set articleSelectors. \<exists>href.
           extractArticleLinks p = first_seen (foundLinks p s) \<and>
           (\<exists>el \<in> set (querySelectorAll p s). getAttribute el ''href'' = Some href) \<and>
           href \<noteq> [] \<and> str_includes href (js ''/blog'') \<and> l = site_link href \<and>
           startsWith l (js ''http'') \<and>
           (\<not> startsWith href (js ''http'') \<or> is_absolute_url href \<longrightarrow> is_absolute_url l)"
    if "l \<in> set (extractArticleLinks p)" for l
  proof -
    from that have m: "l \<in> set (firstLinks p articleSelectors)"
      by (simp add: extractArticleLinks_def new_Set_first_seen set_first_seen)
    with firstLinks_cases [of p articleSelectors] obtain s where
      s: "s \<in> set articleSelectors" "firstLinks p articleSelectors = foundLinks p s"
      by auto
    from m s foundLinks_shape [of l p s] obtain href where
      h: "l = site_link href" "href \<noteq> []" "str_includes href (js ''/blog'')"
        "\<exists>el \<in> set (querySelectorAll p s). getAttribute el ''href'' = Some href"
      by auto
    have e: "extractArticleLinks p = first_seen (foundLinks p s)"
      using s(2) by (simp add: extractArticleLinks_def new_Set_first_seen)
    from s(1) e h site_link_http [of href] site_link_absolute [of href] show ?thesis
      by blast
  qed
  have d: "distinct (extractArticleLinks p)"
    by (simp add: extractArticleLinks_def new_Set_first_seen distinct_first_seen)
  from a b c d show ?thesis
    by blast
qed

theorem link_extractor_first_strategy_witness:
  \<open>articleSelectors =
     [''article a[href*="/blog"]'', ''.blog-post a''] @ ''.post-title a'' #
     [''h2 a[href*="/blog"]'', ''h3 a[href*="/blog"]'', ''.entry-title a'', ''a[href*="/blogs/"]'']
   \<and> foundLinks listing_page ''article a[href*="/blog"]'' = []
   \<and> foundLinks listing_page ''.blog-post a'' = []
   \<and> foundLinks listing_page ''.post-title a'' = [example_url]
   \<and> extractArticleLinks listing_page = [example_url]
   \<and> is_absolute_url example_url
   \<and> extractArticleLinks blank_page = []\<close>
proof -
  have s: \<open>articleSelectors =
     [''article a[href*="/blog"]'', ''.blog-post a''] @ ''.post-title a'' #
     [''h2 a[href*="/blog"]'', ''h3 a[href*="/blog"]'', ''.entry-title a'', ''a[href*="/blogs/"]'']\<close>
    by (simp add: articleSelectors_def)
  have f: \<open>foundLinks listing_page ''article a[href*="/blog"]'' = []\<close>
    \<open>foundLinks listing_page ''.blog-post a'' = []\<close>
    \<open>foundLinks listing_page ''.post-title a'' = [example_url]\<close>
    by (simp_all add: foundLinks_def listing_page_def getAttribute_def site_link_def startsWith_def
        example_url_def js_def)
  have n: "\<not> fails listing_page sel" for sel
    by (simp add: listing_page_def no_fail_def)
  have b: "\<forall>s \<in> set articleSelectors. fails blank_page s \<or> foundLinks blank_page s = []"
    by (simp add: foundLinks_def blank_page_def)
  from s f n link_extractor_first_strategy [of listing_page \<open>[''article a[href*="/blog"]'', ''.blog-post a'']\<close> \<open>''.post-title a''\<close>
      \<open>[''h2 a[href*="/blog"]'', ''h3 a[href*="/blog"]'', ''.entry-title a'', ''a[href*="/blogs/"]'']\<close>]
  have "extractArticleLinks listing_page = first_seen [example_url]"
    by simp
  moreover from b link_extractor_first_strategy [of blank_page] have "extractArticleLinks blank_page = []"
    by blast
  moreover have "is_absolute_url example_url"
    by (simp add: is_absolute_url_def example_url_def js_def is_scheme_char_def is_digit_def)
  ultimately show ?thesis
    using s f by simp
qed

text \<open>
  C6, as stated, fails where it says that every link is resolved to an absolute URL: the
  relative \<^verbatim>\<open>href\<close> "httpx/blog/a" starts with "http" and is returned as it is.
\<close>

theorem link_not_absolute:
  "extractArticleLinks odd_href_page = [js ''httpx/blog/a'']
   \<and> \<not> is_absolute_url (js ''httpx/blog/a'')"
  by (simp add: extractArticleLinks_def articleSelectors_def odd_href_page_def no_fail_def
      foundLinks_def site_link_def new_Set_def getAttribute_def startsWith_def js_def
      is_absolute_url_def is_scheme_char_def is_digit_def)




section \<open>The last page\<close>

lemma sort_by_Nil: "sort_by cmp xs = [] \<longleftrightarrow> xs = []"
proof (cases xs)
  case Nil
  then show ?thesis by simp
next
  case (Cons x ys)
  have "insert_by cmp x zs \<noteq> []" for zs
    by (cases zs) simp_all
  with Cons show ?thesis by simp
qed

lemma hd_insert_by:
  "hd (insert_by cmp x ys) = (case ys of [] \<Rightarrow> x | y # _ \<Rightarrow> if cmp x y \<le> 0 then x else y)"
  by (cases ys) simp_all

lemma first_max_split:
  fixes v :: "'b \<Rightarrow> enat"
  assumes c: "\<And>a b. cmp a b \<le> 0 \<longleftrightarrow> v b \<le> v a"
    and ne: "filter P (map f xs) \<noteq> []"
  shows "\<exists>pre el post. xs = pre @ el # post
           \<and> hd (sort_by cmp (filter P (map f xs))) = f el \<and> P (f el)
           \<and> (\<forall>x \<in> set pre. P (f x) \<longrightarrow> v (f x) < v (f el))
           \<and> (\<forall>x \<in> set post. P (f x) \<longrightarrow> v (f x) \<le> v (f el))"
  using ne
proof (induction xs)
  case Nil
  then show ?case by simp
next
  case (Cons x xs)
  let ?rest = "filter P (map f xs)"
  show ?case
  proof (cases "?rest = []")
    case True
    with Cons.prems have px: "P (f x)"
      by (auto split: if_splits)
    from True have "\<forall>y \<in> set xs. \<not> P (f y)"
      by (auto simp: filter_empty_conv)
    with px True show ?thesis
      by (intro exI [of _ "[]"] exI [of _ x] exI [of _ xs]) simp
  next
    case False
    from Cons.IH [OF False] obtain pre el post where
      ih: "xs = pre @ el # post" "hd (sort_by cmp ?rest) = f el" "P (f el)"
        "\<forall>y \<in> set pre. P (f y) \<longrightarrow> v (f y) < v (f el)"
        "\<forall>y \<in> set post. P (f y) \<longrightarrow> v (f y) \<le> v (f el)"
      by blast
    from False have sn: "sort_by cmp ?rest \<noteq> []"
      by (simp add: sort_by_Nil)
    show ?thesis
    proof (cases "P (f x)")
      case nP: False
      with ih show ?thesis
        by (intro exI [of _ "x # pre"] exI [of _ el] exI [of _ post]) simp
    next
      case pP: True
      then have h: "hd (sort_by cmp (filter P (map f (x # xs)))) =
          (if v (f el) \<le> v (f x) then f x else f el)"
        using sn ih(2) by (cases "sort_by cmp ?rest") (simp_all add: hd_insert_by c)
      show ?thesis
      proof (cases "v (f el) \<le> v (f x)")
        case True
        have "\<forall>y \<in> set xs. P (f y) \<longrightarrow> v (f y) \<le> v (f x)"
        proof (intro ballI impI)
          fix y assume "y \<in> set xs" "P (f y)"
          with ih(1,4,5) have "v (f y) \<le> v (f el)"
            by (auto simp: less_imp_le)
          with True show "v (f y) \<le> v (f x)" by simp
        qed
        with h True pP show ?thesis
          by (intro exI [of _ "[]"] exI [of _ x] exI [of _ xs]) simp
      next
        case False
        then have "v (f x) < v (f el)" by simp
        with h False ih show ?thesis
          by (intro exI [of _ "x # pre"] exI [of _ el] exI [of _ post]) simp
      qed
    qed
  qed
qed

lemma byNumber_le: "byNumber a b \<le> 0 \<longleftrightarrow> pageNumber b \<le> pageNumber a"
  by (auto simp: byNumber_def Let_def)


lemma first_digits_iff: "first_digits t \<noteq> None \<longleftrightarrow> (\<exists>c \<in> set t. is_digit c)"
proof -
  have "takeWhile is_digit (dropWhile (\<lambda>c. \<not> is_digit c) t) \<noteq> [] \<longleftrightarrow> (\<exists>c \<in> set t. is_digit c)"
  proof (cases "dropWhile (\<lambda>c. \<not> is_digit c) t")
    case Nil
    then have "\<forall>c \<in> set t. \<not> is_digit c"
      by (simp add: dropWhile_eq_Nil_conv)
    moreover have "takeWhile is_digit (dropWhile (\<lambda>c. \<not> is_digit c) t) = []"
      unfolding Nil by simp
    ultimately show ?thesis by blast
  next
    case (Cons d ds)
    then have "is_digit d" "d \<in> set t"
      using hd_dropWhile [of "\<lambda>c. \<not> is_digit c" t] set_dropWhileD [of d "\<lambda>c. \<not> is_digit c" t]
      by auto
    with Cons show ?thesis by auto
  qed
  then show ?thesis
    by (auto simp: first_digits_def split: list.splits)
qed

lemma numbered_pageLink:
  "truthy (link_href (pageLink el)) \<noteq> None \<and> first_digits (link_text (pageLink el)) \<noteq> None
     \<longleftrightarrow> numbered el"
  using first_digits_iff [of "trim (textContent el)"]
  by (cases "getAttribute el ''href''") (simp_all add: pageLink_def numbered_def truthy_def)

lemma pageNumber_numbered:
  "numbered el \<Longrightarrow>
     pageNumber (pageLink el) =
       to_double (decimal (takeWhile is_digit (dropWhile (\<lambda>c. \<not> is_digit c) (trim (textContent el)))))"
proof -
  assume "numbered el"
  then have "first_digits (trim (textContent el)) \<noteq> None"
    using first_digits_iff [of "trim (textContent el)"] by (simp add: numbered_def)
  then show ?thesis
    by (auto simp: pageNumber_def pageLink_def parseInt_def first_digits_def split: list.splits)
qed

lemma bit_length_bounds: "0 < n \<Longrightarrow> 2 ^ (bit_length n - 1) \<le> n \<and> n < 2 ^ bit_length n"
proof (induction n rule: bit_length.induct)
  case (1 n)
  show ?case
  proof (cases "n div 2 = 0")
    case True
    with 1(2) have "n = 1" by auto
    then show ?thesis
      by (simp add: bit_length.simps)
  next
    case False
    then have p: "0 < n div 2" by simp
    from 1(2) have n: "n \<noteq> 0" by simp
    from 1(1) [OF n p] have ih: "2 ^ (bit_length (n div 2) - 1) \<le> n div 2" "n div 2 < 2 ^ bit_length (n div 2)"
      by simp_all
    from p have "0 < bit_length (n div 2)"
      by (subst bit_length.simps) simp
    then have b: "bit_length (n div 2) = Suc (bit_length (n div 2) - 1)"
      by simp
    have s: "bit_length n = Suc (bit_length (n div 2))"
      using n by (subst bit_length.simps) simp
    have "(2::nat) ^ (bit_length n - 1) = 2 * 2 ^ (bit_length (n div 2) - 1)"
      unfolding s using b by (metis diff_Suc_1 power_Suc)
    with ih(1) have "2 ^ (bit_length n - 1) \<le> n"
      by linarith
    moreover from ih(2) have "n < 2 ^ bit_length n"
      unfolding s by (simp add: less_mult_imp_div_less mult.commute)
    ultimately show ?thesis by simp
  qed
qed

lemma to_double_overflow: "2 ^ 1024 \<le> n \<Longrightarrow> to_double n = \<infinity>"
proof -
  assume n: "2 ^ 1024 \<le> n"
  moreover have "(0::nat) < 2 ^ 1024"
    by simp
  ultimately have p: "0 < n"
    by (rule less_le_trans [rotated])
  define e where "e = bit_length n - 53"
  from bit_length_bounds [OF p] have b: "2 ^ (bit_length n - 1) \<le> n" "n < 2 ^ bit_length n"
    by simp_all
  from n b(2) have "(2::nat) ^ 1024 < 2 ^ bit_length n"
    by (rule le_less_trans)
  then have l: "1024 < bit_length n"
    by (simp only: power_strict_increasing_iff rel_simps)
  then have bl: "bit_length n - 1 = 52 + e" "1024 \<le> 52 + e"
    by (simp_all add: e_def)
  have "2 ^ 52 \<le> n div 2 ^ e"
  proof -
    from b(1) have "(2::nat) ^ (52 + e) \<le> n"
      by (simp only: bl(1))
    then have "(2::nat) ^ 52 * 2 ^ e \<le> n"
      by (simp only: power_add)
    then show ?thesis
      by (simp add: less_eq_div_iff_mult_less_eq)
  qed
  then have q: "2 ^ 52 * 2 ^ e \<le> n div 2 ^ e * 2 ^ e" "2 ^ 52 * 2 ^ e \<le> (n div 2 ^ e + 1) * 2 ^ e"
    by simp_all
  have "(2::nat) ^ 1024 \<le> 2 ^ (52 + e)"
    using bl(2) by (simp only: power_increasing_iff rel_simps)
  then have "(2::nat) ^ 1024 \<le> 2 ^ 52 * 2 ^ e"
    by (simp only: power_add)
  with q have "\<not> n div 2 ^ e * 2 ^ e < 2 ^ 1024" "\<not> (n div 2 ^ e + 1) * 2 ^ e < 2 ^ 1024"
    by linarith+
  moreover have "(2::nat) ^ 53 \<le> 2 ^ 1024"
    by (rule power_increasing) simp_all
  with n have "\<not> n < 2 ^ 53"
    by linarith
  ultimately show ?thesis
    unfolding to_double_def Let_def e_def [symmetric] by (simp only: if_False split: if_split) simp
qed


lemma to_double_near:
  assumes n: "2 ^ 53 \<le> n" and k: "to_double n = enat k"
  shows "\<exists>m. k = m * 2 ^ (bit_length n - 53) \<and> m \<le> 2 ^ 53
           \<and> 2 * (k - n) \<le> 2 ^ (bit_length n - 53) \<and> 2 * (n - k) \<le> 2 ^ (bit_length n - 53)
           \<and> (2 * (k - n) = 2 ^ (bit_length n - 53) \<or> 2 * (n - k) = 2 ^ (bit_length n - 53)
                \<longrightarrow> even m)"
proof -
  define e where "e = bit_length n - 53"
  define P :: nat where "P = 2 ^ e"
  define q where "q = n div P"
  define r where "r = n mod P"
  have P: "0 < P" by (simp add: P_def)
  have d: "n = q * P + r" "r < P"
    using P by (simp_all add: q_def r_def)
  have "(0::nat) < 2 ^ 53" by simp
  then have p: "0 < n" using n by (rule less_le_trans)
  from bit_length_bounds [OF p] have b: "n < 2 ^ bit_length n"
    by simp
  from n b have "(2::nat) ^ 53 < 2 ^ bit_length n"
    by (rule le_less_trans)
  then have "53 < bit_length n"
    by (simp only: power_strict_increasing_iff rel_simps)
  then have "bit_length n = 53 + e"
    by (simp add: e_def)
  with b have "n < 2 ^ 53 * P"
    by (simp only: power_add P_def)
  then have q: "q < 2 ^ 53"
    unfolding q_def by (simp add: less_mult_imp_div_less)
  from n have nn: "\<not> n < 2 ^ 53" by simp
  define m where "m = (if P < 2 * r \<or> (2 * r = P \<and> odd q) then q + 1 else q)"
  from k nn have km: "k = m * P"
    unfolding to_double_def Let_def e_def [symmetric] P_def [symmetric] q_def [symmetric]
      r_def [symmetric] m_def [symmetric]
    by (simp split: if_splits)
  have "m \<le> 2 ^ 53"
    using q by (simp add: m_def)
  moreover have "2 * (k - n) \<le> P \<and> 2 * (n - k) \<le> P
      \<and> (2 * (k - n) = P \<or> 2 * (n - k) = P \<longrightarrow> even m)"
  proof (cases "P < 2 * r \<or> (2 * r = P \<and> odd q)")
    case True
    then have "m = q + 1"
      unfolding m_def by (rule if_P)
    then have "k = q * P + P"
      by (simp add: km)
    with d True P show ?thesis
      by (auto simp: m_def)
  next
    case False
    then have "m = q"
      unfolding m_def by (rule if_not_P)
    then have "k = q * P"
      by (simp add: km)
    with d False P show ?thesis
      by (auto simp: m_def)
  qed
  ultimately show ?thesis
    using km unfolding P_def e_def by blast
qed

lemma split_two:
  "[a, b] = pre @ el # post \<Longrightarrow>
     (pre = [] \<and> el = a \<and> post = [b]) \<or> (pre = [a] \<and> el = b \<and> post = [])"
  by (auto simp: Cons_eq_append_conv)

lemma split_three:
  "[a, b, c] = pre @ el # post \<Longrightarrow>
     (pre = [] \<and> el = a \<and> post = [b, c]) \<or> (pre = [a] \<and> el = b \<and> post = [c])
     \<or> (pre = [a, b] \<and> el = c \<and> post = [])"
  by (auto simp: Cons_eq_append_conv)

lemma numbered_explicit:
  "explicitLastPage e numbered_page paginationSelectors = None"
  "explicitLastPage e big_page paginationSelectors = None"
  "explicitLastPage e blank_page paginationSelectors = None"
  by (simp_all add: paginationSelectors_def numbered_page_def big_page_def blank_page_def
      no_fail_def querySelector_def)

lemma last_link_explicit:
  "explicitLastPage example_env last_link_page paginationSelectors
     = Some (js ''https://beyondchats.com/page/9'')"
  by (simp add: paginationSelectors_def last_link_page_def no_fail_def querySelector_def
      getAttribute_def absolute_def example_env_def site_URL_def startsWith_def js_def)

lemma absolute_examples:
  "absolute example_env (js ''/page/14'') = Some (js ''https://beyondchats.com/page/14'')"
  "absolute example_env (js ''/page/a'') = Some (js ''https://beyondchats.com/page/a'')"
  by (simp_all add: absolute_def example_env_def site_URL_def startsWith_def js_def)

text \<open>
  C7, as amended. When no explicit selector yields a URL, the resolver looks at the links
  that \<^verbatim>\<open>a[href*="page"]\<close> selects, keeps those with an \<^verbatim>\<open>href\<close> that is not empty and a digit in
  their trimmed text, and returns the resolved \<^verbatim>\<open>href\<close> of the link with the greatest number:
  every kept link before it in document order has a strictly smaller number, every kept link
  after it a number that is not greater. The number of a link is the double that \<^verbatim>\<open>parseInt\<close>
  gives for the first run of digits of its text: the integer itself below \<open>2 ^ 53\<close>; from
  there on a multiple of the unit in the last place (2 to the number of bits of the integer
  less 53) that is at most half a unit away, with an even multiplier when it is exactly half
  a unit away; \<^verbatim>\<open>Infinity\<close> from \<open>2 ^ 1024\<close> on. With no kept link, or when the query throws,
  the resolver returns no URL; it returns in every case. A URL that an explicit selector
  yields is returned as it is.
\<close>

theorem last_page_by_number:
  \<open>(explicitLastPage e p paginationSelectors = None \<longrightarrow>
      (if fails p ''a[href*="page"]'' \<or> (\<forall>el \<in> set (querySelectorAll p ''a[href*="page"]''). \<not> numbered el)
       then findLastPage e p = None
       else \<exists>pre el post href.
              querySelectorAll p ''a[href*="page"]'' = pre @ el # post \<and> numbered el
              \<and> (\<forall>x \<in> set pre. numbered x \<longrightarrow> pageNumber (pageLink x) < pageNumber (pageLink el))
              \<and> (\<forall>x \<in> set post. numbered x \<longrightarrow> pageNumber (pageLink x) \<le> pageNumber (pageLink el))
              \<and> getAttribute el ''href'' = Some href
              \<and> findLastPage e p = absolute e href))
   \<and> (explicitLastPage e p paginationSelectors = Some u \<longrightarrow> findLastPage e p = Some u)
   \<and> (numbered x \<longrightarrow>
        pageNumber (pageLink x) =
          to_double (decimal (takeWhile is_digit (dropWhile (\<lambda>c. \<not> is_digit c) (trim (textContent x))))))
   \<and> (n < 2 ^ 53 \<longrightarrow> to_double n = enat n)
   \<and> (2 ^ 53 \<le> n \<and> to_double n = enat k \<longrightarrow>
        (\<exists>m. k = m * 2 ^ (bit_length n - 53) \<and> m \<le> 2 ^ 53
           \<and> 2 * (k - n) \<le> 2 ^ (bit_length n - 53) \<and> 2 * (n - k) \<le> 2 ^ (bit_length n - 53)
           \<and> (2 * (k - n) = 2 ^ (bit_length n - 53) \<or> 2 * (n - k) = 2 ^ (bit_length n - 53)
                \<longrightarrow> even m)))
   \<and> (2 ^ 1024 \<le> n \<longrightarrow> to_double n = \<infinity>)
   \<and> (0 < n \<longrightarrow> 2 ^ (bit_length n - 1) \<le> n \<and> n < 2 ^ bit_length n)\<close>
proof -
  define q where \<open>q = querySelectorAll p ''a[href*="page"]''\<close>
  define ok :: "page_link \<Rightarrow> bool" where
    "ok = (\<lambda>item. truthy (link_href item) \<noteq> None \<and> first_digits (link_text item) \<noteq> None)"
  have nl: "numberedLinks p = filter ok (map pageLink q)"
    by (simp only: numberedLinks_def q_def ok_def)
  have okn: "ok (pageLink el) \<longleftrightarrow> numbered el" for el
    by (simp only: ok_def numbered_pageLink)
  have a: "\<exists>pre el post href.
              q = pre @ el # post \<and> numbered el
              \<and> (\<forall>x \<in> set pre. numbered x \<longrightarrow> pageNumber (pageLink x) < pageNumber (pageLink el))
              \<and> (\<forall>x \<in> set post. numbered x \<longrightarrow> pageNumber (pageLink x) \<le> pageNumber (pageLink el))
              \<and> getAttribute el ''href'' = Some href
              \<and> findLastPage e p = absolute e href"
    if n: \<open>explicitLastPage e p paginationSelectors = None\<close> \<open>\<not> fails p ''a[href*="page"]''\<close>
      "\<not> (\<forall>el \<in> set q. \<not> numbered el)"
  proof -
    from n(3) have ne: "filter ok (map pageLink q) \<noteq> []"
      by (auto simp: filter_empty_conv okn)
    from first_max_split [of byNumber pageNumber ok pageLink q, OF byNumber_le ne]
    obtain pre el post where s: "q = pre @ el # post"
      "hd (sort_by byNumber (filter ok (map pageLink q))) = pageLink el" "ok (pageLink el)"
      "\<forall>x \<in> set pre. ok (pageLink x) \<longrightarrow> pageNumber (pageLink x) < pageNumber (pageLink el)"
      "\<forall>x \<in> set post. ok (pageLink x) \<longrightarrow> pageNumber (pageLink x) \<le> pageNumber (pageLink el)"
      by blast
    from s(3) have nu: "numbered el"
      by (simp only: okn)
    then obtain href where h: "getAttribute el ''href'' = Some href"
      by (auto simp: numbered_def split: option.splits)
    from ne have "pageNumbers p \<noteq> []"
      by (simp add: pageNumbers_def nl sort_by_Nil)
    then obtain y ys where y: "pageNumbers p = y # ys"
      by (cases "pageNumbers p") auto
    with s(2) have "y = pageLink el"
      by (simp add: pageNumbers_def nl)
    with y h n(1,2) have "findLastPage e p = absolute e href"
      by (simp add: findLastPage_def pageLink_def)
    with s(1,4,5) nu h show ?thesis
      by (simp only: okn) blast
  qed
  have b: \<open>findLastPage e p = None\<close>
    if \<open>explicitLastPage e p paginationSelectors = None\<close>
      \<open>fails p ''a[href*="page"]'' \<or> (\<forall>el \<in> set q. \<not> numbered el)\<close>
  proof -
    have "numberedLinks p = []" if "\<forall>el \<in> set q. \<not> numbered el"
      using that by (simp add: nl filter_empty_conv okn)
    with that show ?thesis
      by (auto simp: findLastPage_def pageNumbers_def)
  qed
  have c: "findLastPage e p = Some u" if "explicitLastPage e p paginationSelectors = Some u"
    using that by (simp add: findLastPage_def)
  have d: "to_double n = enat n" if "n < 2 ^ 53"
    using that by (simp add: to_double_def)
  note r = to_double_near [of n k] to_double_overflow [of n] bit_length_bounds [of n]
  from a b c d pageNumber_numbered [of x] have
    \<open>(explicitLastPage e p paginationSelectors = None \<longrightarrow>
      (if fails p ''a[href*="page"]'' \<or> (\<forall>el \<in> set (querySelectorAll p ''a[href*="page"]''). \<not> numbered el)
       then findLastPage e p = None
       else \<exists>pre el post href.
              querySelectorAll p ''a[href*="page"]'' = pre @ el # post \<and> numbered el
              \<and> (\<forall>x \<in> set pre. numbered x \<longrightarrow> pageNumber (pageLink x) < pageNumber (pageLink el))
              \<and> (\<forall>x \<in> set post. numbered x \<longrightarrow> pageNumber (pageLink x) \<le> pageNumber (pageLink el))
              \<and> getAttribute el ''href'' = Some href
              \<and> findLastPage e p = absolute e href))
   \<and> (explicitLastPage e p paginationSelectors = Some u \<longrightarrow> findLastPage e p = Some u)
   \<and> (numbered x \<longrightarrow>
        pageNumber (pageLink x) =
          to_double (decimal (takeWhile is_digit (dropWhile (\<lambda>c. \<not> is_digit c) (trim (textContent x))))))
   \<and> (n < 2 ^ 53 \<longrightarrow> to_double n = enat n)\<close>
    unfolding q_def by (simp only: split: if_split) blast
  with r show ?thesis
    by blast
qed

theorem last_page_by_number_witness:
  \<open>explicitLastPage example_env numbered_page paginationSelectors = None
   \<and> \<not> fails numbered_page ''a[href*="page"]''
   \<and> querySelectorAll numbered_page ''a[href*="page"]'' = [link_2, link_14, link_3]
   \<and> numbered link_2 \<and> numbered link_14 \<and> numbered link_3
   \<and> map (\<lambda>el. pageNumber (pageLink el)) [link_2, link_14, link_3] = [enat 2, enat 14, enat 3]
   \<and> (14 :: nat) < 2 ^ 53
   \<and> findLastPage example_env numbered_page = Some (js ''https://beyondchats.com/page/14'')
   \<and> explicitLastPage example_env big_page paginationSelectors = None
   \<and> querySelectorAll big_page ''a[href*="page"]'' = [link_a, link_b]
   \<and> numbered link_a \<and> numbered link_b
   \<and> map (\<lambda>el. pageNumber (pageLink el)) [link_a, link_b]
       = [enat 9007199254740992, enat 9007199254740992]
   \<and> findLastPage example_env big_page = Some (js ''https://beyondchats.com/page/a'')
   \<and> (2 :: nat) ^ 53 \<le> 9007199254740993
   \<and> to_double 9007199254740993 = enat 9007199254740992
   \<and> bit_length 9007199254740993 = 54
   \<and> (\<exists>m. (9007199254740992 :: nat) = m * 2 ^ (54 - 53) \<and> even m)
   \<and> to_double 9007199254740995 = enat 9007199254740996
   \<and> to_double 18014398509481985 = enat 18014398509481984
   \<and> to_double 18014398509481987 = enat 18014398509481988
   \<and> to_double (2 ^ 1024) = \<infinity>
   \<and> explicitLastPage example_env blank_page paginationSelectors = None
   \<and> findLastPage example_env blank_page = None
   \<and> explicitLastPage example_env last_link_page paginationSelectors
       = Some (js ''https://beyondchats.com/page/9'')
   \<and> findLastPage example_env last_link_page = Some (js ''https://beyondchats.com/page/9'')\<close>
proof -
  have q: \<open>querySelectorAll numbered_page ''a[href*="page"]'' = [link_2, link_14, link_3]\<close>
    \<open>querySelectorAll big_page ''a[href*="page"]'' = [link_a, link_b]\<close>
    \<open>querySelectorAll blank_page ''a[href*="page"]'' = []\<close>
    by (simp_all add: numbered_page_def big_page_def blank_page_def)
  have f: \<open>\<not> fails numbered_page ''a[href*="page"]''\<close> \<open>\<not> fails big_page ''a[href*="page"]''\<close>
    by (simp_all add: numbered_page_def big_page_def no_fail_def)
  have r: "getAttribute link_2 ''href'' = Some (js ''/page/2'')"
    "getAttribute link_14 ''href'' = Some (js ''/page/14'')"
    "getAttribute link_3 ''href'' = Some (js ''/page/3'')"
    "getAttribute link_a ''href'' = Some (js ''/page/a'')"
    "getAttribute link_b ''href'' = Some (js ''/page/b'')"
    by (simp_all add: link_2_def link_14_def link_3_def link_a_def link_b_def getAttribute_def)
  have n: "numbered link_2" "numbered link_14" "numbered link_3" "numbered link_a" "numbered link_b"
    by (simp_all add: numbered_def r)
       (simp_all add: link_2_def link_14_def link_3_def link_a_def link_b_def js_def trim_def
        is_space_def is_digit_def)
  have d: "decimal (takeWhile is_digit (dropWhile (\<lambda>c. \<not> is_digit c) (trim (textContent link_2)))) = 2"
    "decimal (takeWhile is_digit (dropWhile (\<lambda>c. \<not> is_digit c) (trim (textContent link_14)))) = 14"
    "decimal (takeWhile is_digit (dropWhile (\<lambda>c. \<not> is_digit c) (trim (textContent link_3)))) = 3"
    "decimal (takeWhile is_digit (dropWhile (\<lambda>c. \<not> is_digit c) (trim (textContent link_a))))
       = 9007199254740992"
    "decimal (takeWhile is_digit (dropWhile (\<lambda>c. \<not> is_digit c) (trim (textContent link_b))))
       = 9007199254740993"
    by (simp_all add: link_2_def link_14_def link_3_def link_a_def link_b_def js_def trim_def
        is_space_def is_digit_def decimal_def)
  have m: "pageNumber (pageLink link_2) = enat 2" "pageNumber (pageLink link_14) = enat 14"
    "pageNumber (pageLink link_3) = enat 3"
    using last_page_by_number [of example_env blank_page undefined link_2 2]
      last_page_by_number [of example_env blank_page undefined link_14 14]
      last_page_by_number [of example_env blank_page undefined link_3 3] n(1,2,3)
    by (simp_all add: d)
  have m': "pageNumber (pageLink link_a) = enat 9007199254740992"
    "pageNumber (pageLink link_b) = enat 9007199254740992"
    using last_page_by_number [of example_env blank_page undefined link_a 0]
      last_page_by_number [of example_env blank_page undefined link_b 0] n(4,5)
    by (simp_all add: d to_double_def bit_length.simps Let_def)
  have "findLastPage example_env numbered_page = absolute example_env (js ''/page/14'')"
  proof -
    from last_page_by_number [of example_env numbered_page undefined undefined 0]
      numbered_explicit(1) [of example_env] f(1) q(1) n(1)
    obtain pre el post href where s: "[link_2, link_14, link_3] = pre @ el # post"
      "\<forall>x \<in> set pre. numbered x \<longrightarrow> pageNumber (pageLink x) < pageNumber (pageLink el)"
      "\<forall>x \<in> set post. numbered x \<longrightarrow> pageNumber (pageLink x) \<le> pageNumber (pageLink el)"
      "getAttribute el ''href'' = Some href"
      "findLastPage example_env numbered_page = absolute example_env href"
      by auto
    from split_three [OF s(1)] s(2,3) n m have "el = link_14"
      by auto
    with s(4,5) r(2) show ?thesis
      by simp
  qed
  moreover have "findLastPage example_env big_page = absolute example_env (js ''/page/a'')"
  proof -
    from last_page_by_number [of example_env big_page undefined undefined 0]
      numbered_explicit(2) [of example_env] f(2) q(2) n(4)
    obtain pre el post href where s: "[link_a, link_b] = pre @ el # post"
      "\<forall>x \<in> set pre. numbered x \<longrightarrow> pageNumber (pageLink x) < pageNumber (pageLink el)"
      "\<forall>x \<in> set post. numbered x \<longrightarrow> pageNumber (pageLink x) \<le> pageNumber (pageLink el)"
      "getAttribute el ''href'' = Some href"
      "findLastPage example_env big_page = absolute example_env href"
      by auto
    from split_two [OF s(1)] s(2,3) n m' have "el = link_a"
      by auto
    with s(4,5) r(4) show ?thesis
      by simp
  qed
  moreover have "findLastPage example_env blank_page = None"
    using last_page_by_number [of example_env blank_page undefined undefined 0]
      numbered_explicit(3) [of example_env] q(3) by simp
  moreover have "findLastPage example_env last_link_page = Some (js ''https://beyondchats.com/page/9'')"
    using last_page_by_number [of example_env last_link_page "js ''https://beyondchats.com/page/9''" undefined 0]
      last_link_explicit by simp
  moreover have td: "to_double 9007199254740995 = enat 9007199254740996"
    "to_double 18014398509481985 = enat 18014398509481984"
    "to_double 18014398509481987 = enat 18014398509481988"
    "to_double 9007199254740993 = enat 9007199254740992"
    by (simp_all add: to_double_def bit_length.simps Let_def)
  moreover have bl: "bit_length 9007199254740993 = 54"
    by (simp add: bit_length.simps)
  moreover have "\<exists>m. (9007199254740992 :: nat) = m * 2 ^ (54 - 53) \<and> even m"
  proof -
    have "(2 :: nat) ^ 53 \<le> 9007199254740993"
      by simp
    with td(4) last_page_by_number [of example_env blank_page undefined undefined 9007199254740993 9007199254740992]
    obtain m where m: "(9007199254740992 :: nat) = m * 2 ^ (bit_length 9007199254740993 - 53)"
      "2 * (9007199254740993 - 9007199254740992) = (2 :: nat) ^ (bit_length 9007199254740993 - 53)
         \<longrightarrow> even m"
      by blast
    from m(2) have "even m"
      by (simp add: bl)
    with m(1) show ?thesis
      unfolding bl by blast
  qed
  moreover have "to_double (2 ^ 1024) = \<infinity>"
    using last_page_by_number [of example_env blank_page undefined undefined "2 ^ 1024" 0] by simp
  ultimately show ?thesis
    using numbered_explicit [of example_env] last_link_explicit f(1) absolute_examples
    by (simp add: q n m m')
qed

text \<open>
  C7, as stated, fails for the links it names: a link whose text is a page number is not
  looked at when its \<^verbatim>\<open>href\<close> has no "page" in it. For a page whose only link is "2" with
  the \<^verbatim>\<open>href\<close> "/blogs/2" the resolver returns no URL.
\<close>

theorem numbered_link_without_page_ignored:
  "querySelectorAll unpaged_page ''a'' = [unpaged_link]
   \<and> getAttribute unpaged_link ''href'' = Some (js ''/blogs/2'')
   \<and> first_digits (trim (textContent unpaged_link)) = Some (js ''2'')
   \<and> findLastPage example_env unpaged_page = None"
proof -
  have "explicitLastPage example_env unpaged_page paginationSelectors = None"
    by (simp add: paginationSelectors_def unpaged_page_def no_fail_def querySelector_def)
  moreover have "numberedLinks unpaged_page = []"
    by (simp add: numberedLinks_def unpaged_page_def)
  moreover have "first_digits (trim (textContent unpaged_link)) = Some (js ''2'')"
    by (simp add: unpaged_link_def trim_def js_def is_space_def first_digits_def is_digit_def)
  ultimately show ?thesis
    by (simp add: findLastPage_def pageNumbers_def)
       (simp add: unpaged_page_def unpaged_link_def getAttribute_def)
qed


section \<open>Cleaning\<close>

lemma replace_spaces_space:
  "is_space c \<Longrightarrow>
     replace_all re_spaces r (c # cs) = r @ replace_all re_spaces r (dropWhile is_space cs)"
  by (simp add: re_spaces_def dropWhile_eq_drop)

lemma replace_spaces_other:
  "\<not> is_space c \<Longrightarrow> replace_all re_spaces r (c # cs) = c # replace_all re_spaces r cs"
  by (simp add: re_spaces_def)

lemma is_space_blank: "is_space 0x20"
  by (simp add: is_space_def)

lemma single_spaced_Cons:
  "single_spaced (c # t) \<longleftrightarrow>
     (is_space c \<longrightarrow> c = 0x20 \<and> (t = [] \<or> \<not> is_space (hd t))) \<and> single_spaced t"
  by (cases t) auto

lemma collapse_head:
  "s \<noteq> [] \<Longrightarrow> \<not> is_space (hd s) \<Longrightarrow>
     replace_all re_spaces r s \<noteq> [] \<and> hd (replace_all re_spaces r s) = hd s"
  by (cases s) (simp_all add: re_spaces_None)

lemma single_spaced_collapse: "single_spaced (replace_all re_spaces [0x20] s)"
proof (induction s rule: length_induct)
  case (1 s)
  show ?case
  proof (cases s)
    case Nil
    then show ?thesis by simp
  next
    case (Cons c cs)
    show ?thesis
    proof (cases "is_space c")
      case True
      let ?d = "dropWhile is_space cs"
      have "length ?d < length s"
        using Cons by (simp add: less_Suc_eq_le length_dropWhile_le)
      with "1.IH" have ih: "single_spaced (replace_all re_spaces [0x20] ?d)"
        by blast
      have "replace_all re_spaces [0x20] ?d = [] \<or> \<not> is_space (hd (replace_all re_spaces [0x20] ?d))"
      proof (cases ?d)
        case Nil
        show ?thesis unfolding Nil by simp
      next
        case (Cons d ds)
        then have "\<not> is_space (hd ?d)"
          using hd_dropWhile [of is_space cs] by simp
        with Cons collapse_head [of ?d "[0x20]"] show ?thesis by simp
      qed
      moreover have "replace_all re_spaces [0x20] s = 0x20 # replace_all re_spaces [0x20] ?d"
        unfolding Cons using replace_spaces_space [OF True, of "[0x20]" cs] by simp
      ultimately show ?thesis
        using ih by (simp only: single_spaced_Cons) simp
    next
      case False
      have "single_spaced (replace_all re_spaces [0x20] cs)"
        using "1.IH" Cons by simp
      moreover have "replace_all re_spaces [0x20] s = c # replace_all re_spaces [0x20] cs"
        unfolding Cons by (rule replace_spaces_other [OF False])
      ultimately show ?thesis
        using False by (simp only: single_spaced_Cons) simp
    qed
  qed
qed

lemma collapse_single_spaced: "single_spaced s \<Longrightarrow> replace_all re_spaces [0x20] s = s"
proof (induction s)
  case Nil
  then show ?case by simp
next
  case (Cons c cs)
  from Cons.prems have t: "single_spaced cs"
    and h: "is_space c \<longrightarrow> c = 0x20 \<and> (cs = [] \<or> \<not> is_space (hd cs))"
    by (simp_all add: single_spaced_Cons)
  show ?case
  proof (cases "is_space c")
    case True
    with h have "dropWhile is_space cs = cs" "c = 0x20"
      by (cases cs; simp)+
    with True Cons.IH [OF t] show ?thesis
      by (simp add: replace_spaces_space del: replace_all.simps)
  next
    case False
    with Cons.IH [OF t] show ?thesis
      by (simp add: replace_spaces_other del: replace_all.simps)
  qed
qed

lemma single_spaced_no_newline: "single_spaced s \<Longrightarrow> 0x0A \<notin> set s"
  by (induction s) (auto simp: single_spaced_Cons is_space_newline)

lemma single_spaced_append: "single_spaced (xs @ ys) \<Longrightarrow> single_spaced xs \<and> single_spaced ys"
proof (induction xs)
  case Nil
  then show ?case by simp
next
  case (Cons x xs)
  then show ?case
    by (cases xs) (auto simp: single_spaced_Cons)
qed

lemma trim_split: "\<exists>a b. s = a @ trim s @ b"
proof -
  let ?d = "dropWhile is_space s"
  have "rev (takeWhile is_space (rev ?d) @ dropWhile is_space (rev ?d)) = rev (rev ?d)"
    by (simp only: takeWhile_dropWhile_id)
  then have "rev (dropWhile is_space (rev ?d)) @ rev (takeWhile is_space (rev ?d)) = ?d"
    by (simp only: rev_append rev_rev_ident)
  then have "?d = trim s @ rev (takeWhile is_space (rev ?d))"
    by (simp only: trim_def)
  moreover have "s = takeWhile is_space s @ ?d"
    by simp
  ultimately show ?thesis
    by metis
qed

lemma single_spaced_trim: "single_spaced s \<Longrightarrow> single_spaced (trim s)"
proof -
  assume a: "single_spaced s"
  from trim_split [of s] obtain x y where "s = x @ trim s @ y"
    by blast
  with a have "single_spaced (x @ trim s @ y)"
    by simp
  then show ?thesis
    using single_spaced_append by blast
qed

lemma trim_ends: "trim s = [] \<or> (\<not> is_space (hd (trim s)) \<and> \<not> is_space (last (trim s)))"
proof (cases "trim s = []")
  case True
  then show ?thesis by simp
next
  case False
  let ?d = "dropWhile is_space s"
  let ?e = "dropWhile is_space (rev ?d)"
  from False have e: "?e \<noteq> []"
    by (simp add: trim_def)
  then have "\<not> is_space (hd ?e)"
    using hd_dropWhile [of is_space "rev ?d"] by simp
  then have l: "\<not> is_space (last (trim s))"
    using e by (simp add: trim_def last_rev)
  from e have d: "?d \<noteq> []"
    by (metis dropWhile.simps(1) rev.simps(1))
  then have "\<not> is_space (hd ?d)"
    using hd_dropWhile [of is_space s] by simp
  moreover have "last ?e = last (rev ?d)"
  proof -
    have "rev ?d = takeWhile is_space (rev ?d) @ ?e"
      by simp
    then show ?thesis
      using e by (metis last_appendR)
  qed
  ultimately have "\<not> is_space (hd (trim s))"
    using d e by (simp add: trim_def hd_rev last_rev)
  with l show ?thesis by simp
qed

lemma trim_id: "s = [] \<or> (\<not> is_space (hd s) \<and> \<not> is_space (last s)) \<Longrightarrow> trim s = s"
proof (cases s)
  case Nil
  then show ?thesis by (simp add: trim_def)
next
  case (Cons c cs)
  assume "s = [] \<or> (\<not> is_space (hd s) \<and> \<not> is_space (last s))"
  with Cons have h: "\<not> is_space (hd s)" "\<not> is_space (last s)" "s \<noteq> []"
    by simp_all
  then have "dropWhile is_space s = s"
    by (cases s) simp_all
  moreover from h have "dropWhile is_space (rev s) = rev s"
    by (cases "rev s") (auto simp: hd_rev)
  ultimately show ?thesis
    by (simp add: trim_def)
qed

lemma trim_trim: "trim (trim s) = trim s"
  using trim_ends [of s] by (rule trim_id)

lemma clean_whitespace_eq: "clean_whitespace t = trim (replace_all re_spaces [0x20] t)"
  using single_spaced_no_newline [OF single_spaced_collapse, of t]
  by (simp add: clean_whitespace_def js_def replace_blank_lines_id)

lemma clean_whitespace_idem: "clean_whitespace (clean_whitespace t) = clean_whitespace t"
proof -
  let ?u = "trim (replace_all re_spaces [0x20] t)"
  have "single_spaced ?u"
    by (rule single_spaced_trim [OF single_spaced_collapse])
  then have "replace_all re_spaces [0x20] ?u = ?u"
    by (rule collapse_single_spaced)
  then show ?thesis
    by (simp add: clean_whitespace_eq trim_trim)
qed



text \<open>
  C8, as amended. The white-space stage of the cleaning (collapsing and trimming) is
  idempotent. Cleaning a cleaned text parses it as HTML once more; the whole cleaning is
  idempotent on an input whose cleaned text the parser reads as that same text, which is
  so for a cleaned text without markup and character references.
\<close>

theorem cleaning_idempotent_on_plain_text:
  "clean_whitespace (clean_whitespace t) = clean_whitespace t
   \<and> cleanArticleContent e (cleanArticleContent e x) =
       clean_whitespace (html_text e (cleanArticleContent e x))
   \<and> (html_text e (cleanArticleContent e x) = cleanArticleContent e x \<longrightarrow>
        cleanArticleContent e (cleanArticleContent e x) = cleanArticleContent e x)"
  by (simp add: cleanArticleContent_def clean_whitespace_idem)

lemma plain_html_text: "0x26 \<notin> set s \<Longrightarrow> html_text example_env s = s"
  by (simp add: html_text_def example_env_def plain_text_load_def unwanted_def decode_refs_id)

lemma clean_examples:
  "cleanArticleContent example_env (js ''a  b '') = js ''a b''"
  "cleanArticleContent example_env (js ''&amp;lt;'') = js ''&lt;''"
  "cleanArticleContent example_env (js ''&lt;'') = js ''<''"
  by (simp_all add: cleanArticleContent_def html_text_def example_env_def plain_text_load_def
      unwanted_def clean_whitespace_eq js_def startsWith_def trim_def re_spaces_def is_space_def)

theorem cleaning_idempotent_on_plain_text_witness:
  "html_text example_env (cleanArticleContent example_env (js ''a  b '')) =
     cleanArticleContent example_env (js ''a  b '')
   \<and> cleanArticleContent example_env (js ''a  b '') = js ''a b''
   \<and> cleanArticleContent example_env (cleanArticleContent example_env (js ''a  b '')) = js ''a b''"
proof -
  have "html_text example_env (js ''a b'') = js ''a b''"
    by (rule plain_html_text) (simp add: js_def)
  then have h: "html_text example_env (cleanArticleContent example_env (js ''a  b '')) =
     cleanArticleContent example_env (js ''a  b '')"
    by (simp only: clean_examples)
  with cleaning_idempotent_on_plain_text [of _ example_env "js ''a  b ''"]
  have "cleanArticleContent example_env (cleanArticleContent example_env (js ''a  b '')) =
      cleanArticleContent example_env (js ''a  b '')"
    by blast
  with h show ?thesis
    by (simp only: clean_examples)
qed


text \<open>
  C8, as stated, fails: the cleaned text of \<^verbatim>\<open>&amp;lt;\<close> is \<^verbatim>\<open>&lt;\<close>, a character
  reference again, and cleaning it gives the single character \<^verbatim>\<open><\<close>.
\<close>

theorem cleaning_not_idempotent:
  "cleanArticleContent example_env (js ''&amp;lt;'') = js ''&lt;''
   \<and> cleanArticleContent example_env (cleanArticleContent example_env (js ''&amp;lt;'')) = js ''<''
   \<and> cleanArticleContent example_env (cleanArticleContent example_env (js ''&amp;lt;'')) \<noteq>
       cleanArticleContent example_env (js ''&amp;lt;'')"
  by (simp add: clean_examples) (simp add: js_def)

end
